theory Spec2Isabelle
  imports Complex_Main "HOL-Library.Sublist"
begin

section \<open>Python strings\<close>

text \<open>
  A Python \<open>str\<close> is a sequence of code points.  The model is \<open>string\<close> (a list of
  \<open>char\<close>), each \<open>char\<close> standing for the code point with the same number, so the
  strings covered are those over the code points 0 to 255 (ASCII and Latin-1); \<open>length\<close>
  is Python's \<open>len\<close>.  The character classes below are the ones CPython's
  \<open>str.isspace\<close>, \<open>str.isdigit\<close>, \<open>str.isalpha\<close>, \<open>str.isupper\<close>,
  \<open>str.islower\<close> and \<open>str.lower\<close> have on that range; the classes \<open>\s\<close> and
  \<open>\d\<close> of the \<open>re\<close> module are \<open>chr_isspace\<close> and \<open>re_digit\<close> there.
\<close>

definition py_ord :: "char \<Rightarrow> nat" where
  "py_ord c = of_char c"

definition chr_isspace :: "char \<Rightarrow> bool" where
  "chr_isspace c =
     (let n = py_ord c in (9 \<le> n \<and> n \<le> 13) \<or> (28 \<le> n \<and> n \<le> 32) \<or> n = 133 \<or> n = 160)"

definition chr_isdigit :: "char \<Rightarrow> bool" where
  "chr_isdigit c =
     (let n = py_ord c in (48 \<le> n \<and> n \<le> 57) \<or> n = 178 \<or> n = 179 \<or> n = 185)"

definition re_digit :: "char \<Rightarrow> bool" where
  "re_digit c = (let n = py_ord c in 48 \<le> n \<and> n \<le> 57)"

definition chr_isupper :: "char \<Rightarrow> bool" where
  "chr_isupper c =
     (let n = py_ord c in (65 \<le> n \<and> n \<le> 90) \<or> (192 \<le> n \<and> n \<le> 214) \<or> (216 \<le> n \<and> n \<le> 222))"

definition chr_islower :: "char \<Rightarrow> bool" where
  "chr_islower c =
     (let n = py_ord c in
        (97 \<le> n \<and> n \<le> 122) \<or> n = 170 \<or> n = 181 \<or> n = 186
        \<or> (223 \<le> n \<and> n \<le> 246) \<or> (248 \<le> n \<and> n \<le> 255))"

definition chr_isalpha :: "char \<Rightarrow> bool" where
  "chr_isalpha c =
     (let n = py_ord c in
        (65 \<le> n \<and> n \<le> 90) \<or> (97 \<le> n \<and> n \<le> 122) \<or> n = 170 \<or> n = 181 \<or> n = 186
        \<or> (192 \<le> n \<and> n \<le> 214) \<or> (216 \<le> n \<and> n \<le> 246) \<or> (248 \<le> n \<and> n \<le> 255))"

definition chr_lower :: "char \<Rightarrow> char" where
  "chr_lower c = (if chr_isupper c then char_of (py_ord c + 32) else c)"

definition str_lower :: "string \<Rightarrow> string" where
  "str_lower s = map chr_lower s"

text \<open>\<open>s.isupper()\<close>: at least one cased character, and no cased character that is
  not uppercase.\<close>

definition str_isupper :: "string \<Rightarrow> bool" where
  "str_isupper s = (list_ex chr_isupper s \<and> \<not> list_ex chr_islower s)"

text \<open>\<open>s.strip()\<close> without argument removes leading and trailing whitespace.\<close>

definition str_lstrip :: "string \<Rightarrow> string" where
  "str_lstrip s = dropWhile chr_isspace s"

definition str_rstrip :: "string \<Rightarrow> string" where
  "str_rstrip s = rev (dropWhile chr_isspace (rev s))"

definition str_strip :: "string \<Rightarrow> string" where
  "str_strip s = str_rstrip (str_lstrip s)"

text \<open>\<open>s.split()\<close> without argument: the maximal runs of non-whitespace characters.
  The first argument of \<open>split_from\<close> is the word read so far.\<close>

fun split_from :: "string \<Rightarrow> string \<Rightarrow> string list" where
  "split_from w [] = (if w = [] then [] else [w])"
| "split_from w (c # cs) =
     (if chr_isspace c then (if w = [] then split_from [] cs else w # split_from [] cs)
      else split_from (w @ [c]) cs)"

definition str_split :: "string \<Rightarrow> string list" where
  "str_split s = split_from [] s"

text \<open>\<open>s.split("\n")\<close> and \<open>s.split("\n\n")\<close>: splitting at a separator, from the
  left, without overlaps; the result is never empty.\<close>

definition nl :: char where
  "nl = CHR 0x0A"

fun lines_from :: "string \<Rightarrow> string \<Rightarrow> string list" where
  "lines_from w [] = [w]"
| "lines_from w (c # cs) = (if c = nl then w # lines_from [] cs else lines_from (w @ [c]) cs)"

definition split_nl :: "string \<Rightarrow> string list" where
  "split_nl s = lines_from [] s"

fun blocks_from :: "string \<Rightarrow> string \<Rightarrow> string list" where
  "blocks_from w [] = [w]"
| "blocks_from w [c] = [w @ [c]]"
| "blocks_from w (c # d # cs) =
     (if c = nl \<and> d = nl then w # blocks_from [] cs else blocks_from (w @ [c]) (d # cs))"

definition split_nlnl :: "string \<Rightarrow> string list" where
  "split_nlnl s = blocks_from [] s"

text \<open>\<open>sep.join(xs)\<close>.\<close>

fun str_join :: "string \<Rightarrow> string list \<Rightarrow> string" where
  "str_join sep [] = []"
| "str_join sep [x] = x"
| "str_join sep (x # y # ys) = x @ sep @ str_join sep (y # ys)"

text \<open>\<open>s.startswith(p)\<close> and \<open>p in s\<close>.\<close>

definition startswith :: "string \<Rightarrow> string \<Rightarrow> bool" where
  "startswith s p = (take (length p) s = p)"

fun str_contains :: "string \<Rightarrow> string \<Rightarrow> bool" where
  "str_contains [] p = (p = [])"
| "str_contains (c # cs) p = (startswith (c # cs) p \<or> str_contains cs p)"

section \<open>The prose classifier\<close>

text \<open>
  \<open>_is_proper_chunk_text\<close>.  Python computes each ratio as a float (the quotient of two
  integers, correctly rounded) and compares it with a decimal literal (the double nearest
  to it).  Rounding is monotone and the counts are lengths of strings, far below \<open>2^53\<close>,
  where a quotient of two such counts that differs from the decimal differs from it by more
  than the rounding error; so each comparison has the value of the same comparison between
  the exact rationals, which is what the model computes.
\<close>

definition is_proper_chunk_text :: "string \<Rightarrow> bool" where
  "is_proper_chunk_text content =
     (let s = str_strip content;
          words = filter (\<lambda>w. w \<noteq> []) (str_split s)
      in if s = [] \<or> length s < 35 \<or> length words < 5 then False
         else
           let n = length s;
               nw = length words;
               digits = rat_of_nat (length (filter chr_isdigit s)) / rat_of_nat (max n 1);
               single = rat_of_nat (length (filter (\<lambda>w. length w = 1) words)) / rat_of_nat (max nw 1);
               alpha = rat_of_nat (length (filter (list_ex chr_isalpha) words)) / rat_of_nat nw;
               unique = rat_of_nat (card (set (map str_lower words))) / rat_of_nat (max nw 1);
               avg_len = rat_of_nat (sum_list (map length words)) / rat_of_nat (max nw 1);
               has_end = list_ex (\<lambda>c. c \<in> set s) ''.!?''
           in digits \<le> 4 / 10 \<and> single \<le> 28 / 100 \<and> alpha \<ge> 5 / 10 \<and> unique \<ge> 3 / 10
              \<and> (has_end \<or> avg_len \<ge> 32 / 10)
              \<and> \<not> (str_isupper s \<and> n < 80))"

text \<open>
  The classifier as the specification words it: a conjunction of seven conditions on the
  trimmed text, each fraction taken over all characters or over all words.
\<close>

definition fraction :: "nat \<Rightarrow> nat \<Rightarrow> rat" where
  "fraction k n = rat_of_nat k / rat_of_nat n"

definition long_enough :: "string \<Rightarrow> bool" where
  "long_enough t = (35 \<le> length t \<and> 5 \<le> length (str_split t))"

definition digit_fraction :: "string \<Rightarrow> rat" where
  "digit_fraction t = fraction (length (filter chr_isdigit t)) (length t)"

definition single_fraction :: "string \<Rightarrow> rat" where
  "single_fraction t =
     fraction (length (filter (\<lambda>w. length w = 1) (str_split t))) (length (str_split t))"

definition alpha_fraction :: "string \<Rightarrow> rat" where
  "alpha_fraction t =
     fraction (length (filter (list_ex chr_isalpha) (str_split t))) (length (str_split t))"

definition distinct_fraction :: "string \<Rightarrow> rat" where
  "distinct_fraction t =
     fraction (length (remdups (map str_lower (str_split t)))) (length (str_split t))"

definition average_word_length :: "string \<Rightarrow> rat" where
  "average_word_length t = fraction (sum_list (map length (str_split t))) (length (str_split t))"

definition has_terminal_punctuation :: "string \<Rightarrow> bool" where
  "has_terminal_punctuation t = list_ex (\<lambda>c. c = CHR ''.'' \<or> c = CHR ''!'' \<or> c = CHR ''?'') t"

definition spec_accepts :: "string \<Rightarrow> bool" where
  "spec_accepts w =
     (let t = str_strip w
      in long_enough t
         \<and> digit_fraction t \<le> 40 / 100
         \<and> single_fraction t \<le> 28 / 100
         \<and> alpha_fraction t \<ge> 50 / 100
         \<and> distinct_fraction t \<ge> 30 / 100
         \<and> (has_terminal_punctuation t \<or> average_word_length t \<ge> 32 / 10)
         \<and> \<not> (str_isupper t \<and> length t < 80))"

section \<open>The database sanitizer\<close>

text \<open>\<open>_sanitize_text_for_db\<close>: the argument is an \<open>Optional[str]\<close>.\<close>

definition db_keeps :: "char \<Rightarrow> bool" where
  "db_keeps c = (c \<noteq> CHR 0x00 \<and> (py_ord c \<ge> 32 \<or> c \<in> set [nl, CHR 0x0D, CHR 0x09]))"

text \<open>The characters the sanitizer is documented to remove: the null byte and the
  control characters below 32 other than newline, carriage return and tab.\<close>

definition db_rejects :: "char \<Rightarrow> bool" where
  "db_rejects c =
     (c = CHR 0x00 \<or> (py_ord c < 32 \<and> c \<noteq> nl \<and> c \<noteq> CHR 0x0D \<and> c \<noteq> CHR 0x09))"

definition sanitize_text_for_db :: "string option \<Rightarrow> string option" where
  "sanitize_text_for_db s =
     (case s of None \<Rightarrow> None | Some x \<Rightarrow> Some (filter db_keeps x))"

section \<open>Boundary detection\<close>

text \<open>
  The regular expressions of the source, each as the function that decides the match.
  \<open>is_dotted_number\<close> is a full match of \<open>\d+(\.\d+)*\<close>; the flag of \<open>dotted_from\<close>
  tells whether the group being read already has a digit.
\<close>

fun dotted_from :: "bool \<Rightarrow> string \<Rightarrow> bool" where
  "dotted_from seen [] = seen"
| "dotted_from seen (c # cs) =
     (if re_digit c then dotted_from True cs
      else if c = CHR ''.'' \<and> seen then dotted_from False cs
      else False)"

definition is_dotted_number :: "string \<Rightarrow> bool" where
  "is_dotted_number s = dotted_from False s"

text \<open>
  \<open>section_header = re.compile(r"^\s*(\d+(?:\.\d+)*)\s+(.+?)\s*$")\<close>, and
  \<open>section_header.match\<close> returning the groups 1 and 2.  No character of the number is
  whitespace and \<open>\s+\<close> follows it, so group 1 is the run of non-whitespace characters
  after the leading whitespace.  When text follows the whitespace after the number, the
  lazy group 2 is that text without its trailing whitespace, and it matches when it has no
  newline (the dot does not match one).  When only whitespace follows the number, \<open>\s+\<close>
  gives back characters until group 2 can take one that is not a newline.
\<close>

definition section_header_match :: "string \<Rightarrow> (string \<times> string) option" where
  "section_header_match s =
     (let s1 = dropWhile chr_isspace s;
          num = takeWhile (\<lambda>c. \<not> chr_isspace c) s1;
          r = dropWhile (\<lambda>c. \<not> chr_isspace c) s1;
          body = dropWhile chr_isspace r
      in if \<not> is_dotted_number num \<or> r = [] then None
         else if body \<noteq> [] then
           (let title = str_rstrip body in if nl \<in> set title then None else Some (num, title))
         else
           (case rev (filter (\<lambda>c. c \<noteq> nl) (tl r)) of
              [] \<Rightarrow> None
            | c # _ \<Rightarrow> Some (num, [c])))"

definition is_references_or_bibliography :: "string \<Rightarrow> bool" where
  "is_references_or_bibliography title =
     (let t = str_lower title in str_contains t ''references'' \<or> str_contains t ''bibliography'')"

text \<open>\<open>re.match(r"^\d+(\.\d+)*\s+(references|bibliography)(\s|$)", t)\<close>.\<close>

definition numbered_references_match :: "string \<Rightarrow> bool" where
  "numbered_references_match t =
     (let num = takeWhile (\<lambda>c. \<not> chr_isspace c) t;
          r = dropWhile (\<lambda>c. \<not> chr_isspace c) t;
          body = dropWhile chr_isspace r
      in is_dotted_number num \<and> r \<noteq> []
         \<and> list_ex (\<lambda>kw. startswith body kw
               \<and> (case drop (length kw) body of [] \<Rightarrow> True | c # _ \<Rightarrow> chr_isspace c))
             [''references'', ''bibliography''])"

definition is_standalone_references_header :: "string \<Rightarrow> bool" where
  "is_standalone_references_header line =
     (let s = str_strip line
      in if s = [] \<or> length (str_split s) > 10 then False
         else
           let t = str_lower s
           in if t = ''references'' \<or> t = ''bibliography'' then True
              else if numbered_references_match t then True
              else if length (str_split s) \<le> 4
                      \<and> (startswith t ''references '' \<or> startswith t ''bibliography '') then True
              else False)"

definition is_appendix_header :: "string \<Rightarrow> bool" where
  "is_appendix_header line =
     (let s = str_strip line
      in if s = [] then False
         else
           let t = str_lower s
           in if \<not> str_contains t ''appendix'' \<and> \<not> str_contains t ''appendices'' then False
              else let words = str_split s in length words \<le> 15 \<and> length s \<le> 120)"

text \<open>\<open>re.match(r"^\s*abstract\s*$", ln, re.IGNORECASE)\<close>: on the code points modelled,
  a letter of the pattern matches itself and its capital.\<close>

definition abstract_line_match :: "string \<Rightarrow> bool" where
  "abstract_line_match line = (str_lower (str_strip line) = ''abstract'')"

section \<open>Documents, chunks and collaborators\<close>

text \<open>
  The models of \<open>ChunkData.py\<close>; \<open>'f\<close> is the type of the components of an embedding
  vector.  The fields \<open>section\<close> and \<open>subsection\<close> of a chunk are \<open>section_label\<close> and
  \<open>subsection_label\<close> here, the field \<open>doc_id\<close> of a document is \<open>document_doc_id\<close>.  A
  raised exception is a value of \<open>error\<close>.
\<close>

datatype error = IndexError | OpenAIError string

record 'f RAGChunk =
  doc_id :: string
  content :: string
  embedding :: "'f list option"
  section_label :: "string option"
  subsection_label :: "string option"

record 'f Document =
  document_doc_id :: string
  arxiv_id :: string
  title :: string
  document_summary :: string
  document_summary_embedding :: "'f list option"

text \<open>
  The external collaborators: the two chat completions (the fact sentence of a section and
  the summary of the document), the embedding endpoint and the sentence splitter.  A
  completion answers with the content of its first choice, which may be \<open>None\<close>, or
  raises; its first argument is the list of the requests made before it, so an answer may
  depend on the history.  The embedding endpoint answers with the vectors of \<open>resp.data\<close>.
\<close>

datatype request = FactRequest string | SummaryRequest string | EmbeddingRequest "string list"

record 'f collaborators =
  fact_completion :: "request list \<Rightarrow> string \<Rightarrow> error + string option"
  summary_completion :: "request list \<Rightarrow> string \<Rightarrow> error + string option"
  embeddings_create :: "request list \<Rightarrow> string list \<Rightarrow> error + 'f list list"
  sentence_splitter :: "string \<Rightarrow> string list"

definition or_empty :: "string option \<Rightarrow> string" where
  "or_empty x = (case x of None \<Rightarrow> [] | Some s \<Rightarrow> s)"

text \<open>Each function that calls a collaborator takes the list of requests made so far
  and returns it extended.\<close>

definition extract_section_usage_line ::
  "'f collaborators \<Rightarrow> request list \<Rightarrow> string \<Rightarrow> error + (string \<times> request list)" where
  "extract_section_usage_line c reqs section_text =
     (if section_text = [] \<or> str_strip section_text = [] then Inr ([], reqs)
      else
        let msg = ''Section text:'' @ [nl] @ take 8000 section_text
        in case fact_completion c reqs msg of
             Inl e \<Rightarrow> Inl e
           | Inr resp \<Rightarrow>
               let line = str_strip (or_empty resp)
               in if line \<noteq> [] then
                    (case split_nl line of
                       [] \<Rightarrow> Inl IndexError
                     | first # _ \<Rightarrow> Inr (str_strip first, reqs @ [FactRequest msg]))
                  else Inr ([], reqs @ [FactRequest msg]))"

definition condense_sentences_to_summary ::
  "'f collaborators \<Rightarrow> request list \<Rightarrow> string list \<Rightarrow> error + (string \<times> request list)" where
  "condense_sentences_to_summary c reqs section_sentences =
     (if section_sentences = [] then Inr ([], reqs)
      else
        let sentences_text = str_join [nl] (map (\<lambda>s. ''- '' @ s) section_sentences);
            msg = ''Section sentences:'' @ [nl] @ sentences_text
        in case summary_completion c reqs msg of
             Inl e \<Rightarrow> Inl e
           | Inr resp \<Rightarrow> Inr (str_strip (or_empty resp), reqs @ [SummaryRequest msg]))"

definition chunk_section :: "'f collaborators \<Rightarrow> string \<Rightarrow> string list" where
  "chunk_section c text_in =
     (let t = str_strip text_in
      in if t = [] then []
         else filter (\<lambda>node. str_strip node \<noteq> []) (sentence_splitter c t))"

definition embed_text ::
  "'f collaborators \<Rightarrow> request list \<Rightarrow> string \<Rightarrow> error + ('f list option \<times> request list)" where
  "embed_text c reqs text_in =
     (if text_in = [] \<or> str_strip text_in = [] then Inr (None, reqs)
      else
        case embeddings_create c reqs [str_strip text_in] of
          Inl e \<Rightarrow> Inl e
        | Inr data \<Rightarrow>
            Inr (case data of [] \<Rightarrow> None | v # _ \<Rightarrow> Some v,
                 reqs @ [EmbeddingRequest [str_strip text_in]]))"

section \<open>The segmenter\<close>

text \<open>The variables of \<open>process_document\<close> that its closure \<open>flush\<close> and its loop
  share, with the list of collaborator requests made so far.\<close>

record 'f seg_state =
  chunks_out :: "'f RAGChunk list"
  current_section :: "string option"
  current_subsection :: "string option"
  section_content :: "string list"
  section_sentences :: "string list"
  in_references :: bool
  requests :: "request list"

definition initial_state :: "'f seg_state" where
  "initial_state =
     \<lparr>chunks_out = [], current_section = Some ''Abstract'', current_subsection = None,
      section_content = [], section_sentences = [], in_references = False, requests = []\<rparr>"

definition new_chunk :: "string \<Rightarrow> 'f seg_state \<Rightarrow> string \<Rightarrow> 'f RAGChunk" where
  "new_chunk doc st c_text =
     \<lparr>doc_id = doc, content = c_text, embedding = None,
      section_label = current_section st, subsection_label = current_subsection st\<rparr>"

definition flush :: "'f collaborators \<Rightarrow> string \<Rightarrow> 'f seg_state \<Rightarrow> error + 'f seg_state" where
  "flush c doc st =
     (if section_content st = [] then Inr st
      else
        let combined = str_strip (str_join '' '' (section_content st))
        in if combined = [] then Inr st
           else
             case extract_section_usage_line c (requests st) combined of
               Inl e \<Rightarrow> Inl e
             | Inr (usage_line, reqs) \<Rightarrow>
                 Inr (st\<lparr>requests := reqs,
                         section_sentences :=
                           (if usage_line \<noteq> [] then section_sentences st @ [usage_line]
                            else section_sentences st),
                         chunks_out :=
                           chunks_out st
                           @ map (new_chunk doc st)
                               (filter (\<lambda>x. x \<noteq> [] \<and> is_proper_chunk_text x)
                                  (chunk_section c combined)),
                         section_content := []\<rparr>))"

text \<open>\<open>if current_part: section_content.append("\n".join(current_part))\<close>.\<close>

definition append_part :: "string list \<Rightarrow> 'f seg_state \<Rightarrow> 'f seg_state" where
  "append_part current_part st =
     (if current_part \<noteq> [] then
        st\<lparr>section_content := section_content st @ [str_join [nl] current_part]\<rparr>
      else st)"

text \<open>The body of the loop over the lines of a block; \<open>current_part\<close> is the local list
  of the block.\<close>

fun process_line ::
  "'f collaborators \<Rightarrow> string \<Rightarrow> 'f seg_state \<times> string list \<Rightarrow> string
     \<Rightarrow> error + ('f seg_state \<times> string list)" where
  "process_line c doc (st, current_part) line =
     (let line_stripped = str_strip line
      in if in_references st then
           (if is_appendix_header line_stripped then
              (case flush c doc (append_part current_part (st\<lparr>in_references := False\<rparr>)) of
                 Inl e \<Rightarrow> Inl e
               | Inr st' \<Rightarrow>
                   (case section_header_match line_stripped of
                      Some (num, header_title) \<Rightarrow>
                        if length (str_split line_stripped) \<le> 15 then
                          (if CHR ''.'' \<in> set num then
                             Inr (st'\<lparr>current_subsection := Some line_stripped\<rparr>, [])
                           else
                             Inr (st'\<lparr>current_section := Some line_stripped,
                                      current_subsection := None\<rparr>, []))
                        else
                          Inr (st'\<lparr>current_section := Some line_stripped,
                                   current_subsection := None\<rparr>, [])
                    | None \<Rightarrow>
                        Inr (st'\<lparr>current_section := Some line_stripped,
                                 current_subsection := None\<rparr>, [])))
            else Inr (st, current_part))
         else if is_standalone_references_header line_stripped then
           (case flush c doc (append_part current_part st) of
              Inl e \<Rightarrow> Inl e
            | Inr st' \<Rightarrow> Inr (st'\<lparr>in_references := True\<rparr>, current_part))
         else
           (case section_header_match line_stripped of
              Some (num, header_title) \<Rightarrow>
                if length (str_split line_stripped) \<le> 15 then
                  (case flush c doc (append_part current_part st) of
                     Inl e \<Rightarrow> Inl e
                   | Inr st' \<Rightarrow>
                       if is_references_or_bibliography (str_strip header_title) then
                         Inr (st'\<lparr>in_references := True\<rparr>, current_part)
                       else if CHR ''.'' \<in> set num then
                         Inr (st'\<lparr>current_subsection := Some line_stripped\<rparr>, [])
                       else
                         Inr (st'\<lparr>current_section := Some line_stripped,
                                  current_subsection := None\<rparr>, []))
                else Inr (st, current_part @ [line])
            | None \<Rightarrow> Inr (st, current_part @ [line])))"

fun process_lines ::
  "'f collaborators \<Rightarrow> string \<Rightarrow> 'f seg_state \<times> string list \<Rightarrow> string list
     \<Rightarrow> error + ('f seg_state \<times> string list)" where
  "process_lines c doc sp [] = Inr sp"
| "process_lines c doc sp (line # rest) =
     (case process_line c doc sp line of
        Inl e \<Rightarrow> Inl e
      | Inr sp' \<Rightarrow> process_lines c doc sp' rest)"

definition process_block ::
  "'f collaborators \<Rightarrow> string \<Rightarrow> 'f seg_state \<Rightarrow> string \<Rightarrow> error + 'f seg_state" where
  "process_block c doc st block =
     (case process_lines c doc (st, []) (split_nl block) of
        Inl e \<Rightarrow> Inl e
      | Inr (st', current_part) \<Rightarrow>
          Inr (if \<not> in_references st' \<and> current_part \<noteq> [] then
                 st'\<lparr>section_content := section_content st' @ [str_join [nl] current_part]\<rparr>
               else st'))"

fun process_blocks ::
  "'f collaborators \<Rightarrow> string \<Rightarrow> 'f seg_state \<Rightarrow> string list \<Rightarrow> error + 'f seg_state" where
  "process_blocks c doc st [] = Inr st"
| "process_blocks c doc st (block # rest) =
     (case process_block c doc st block of
        Inl e \<Rightarrow> Inl e
      | Inr st' \<Rightarrow> process_blocks c doc st' rest)"

text \<open>The first page: the text after the first line that is \<open>Abstract\<close>, or all of it.
  \<open>abstract_start_from i\<close> is the loop with its \<open>break\<close>, \<open>i\<close> the index of the head
  of the list.\<close>

fun abstract_start_from :: "nat \<Rightarrow> string list \<Rightarrow> nat option" where
  "abstract_start_from i [] = None"
| "abstract_start_from i (line # rest) =
     (if abstract_line_match (str_strip line) then Some (i + 1)
      else abstract_start_from (i + 1) rest)"

definition first_page_from_abstract :: "string \<Rightarrow> string" where
  "first_page_from_abstract first_page_text =
     (let first_page_lines = split_nl first_page_text
      in case abstract_start_from 0 first_page_lines of
           Some abstract_start \<Rightarrow> str_strip (str_join [nl] (drop abstract_start first_page_lines))
         | None \<Rightarrow> first_page_text)"

text \<open>The pages are the results of \<open>extract_text()\<close>, each a string or \<open>None\<close>;
  \<open>reader.pages[0]\<close> raises on a document without pages.\<close>

definition document_blocks :: "string option list \<Rightarrow> error + string list" where
  "document_blocks pages =
     (case pages of
        [] \<Rightarrow> Inl IndexError
      | first_page # more_pages \<Rightarrow>
          let first_page_text = str_strip (or_empty first_page);
              rest_pages = str_join [nl, nl] (map (\<lambda>page. str_strip (or_empty page)) more_pages);
              full_text = first_page_from_abstract first_page_text
                          @ (if str_strip rest_pages \<noteq> [] then [nl, nl] @ rest_pages else [])
          in Inr (map str_strip (filter (\<lambda>b. str_strip b \<noteq> []) (split_nlnl full_text))))"

text \<open>\<open>process_document\<close>, from the identifier and the title that the source reads off
  the path and the first page.  It returns the document and the chunks, here together with
  the requests made.\<close>

definition process_document ::
  "'f collaborators \<Rightarrow> string \<Rightarrow> string \<Rightarrow> string option list
     \<Rightarrow> error + ('f Document \<times> 'f RAGChunk list \<times> request list)" where
  "process_document c doc doc_title pages =
     (case document_blocks pages of
        Inl e \<Rightarrow> Inl e
      | Inr blocks \<Rightarrow>
     (case process_blocks c doc initial_state blocks of
        Inl e \<Rightarrow> Inl e
      | Inr st \<Rightarrow>
     (case (if \<not> in_references st then flush c doc st else Inr st) of
        Inl e \<Rightarrow> Inl e
      | Inr st' \<Rightarrow>
     (case condense_sentences_to_summary c (requests st') (section_sentences st') of
        Inl e \<Rightarrow> Inl e
      | Inr (summary, reqs) \<Rightarrow>
     (case embed_text c reqs summary of
        Inl e \<Rightarrow> Inl e
      | Inr (summary_embedding, reqs') \<Rightarrow>
          Inr (\<lparr>document_doc_id = doc, arxiv_id = doc, title = doc_title,
                document_summary = summary,
                document_summary_embedding = summary_embedding\<rparr>,
               chunks_out st', reqs'))))))"

text \<open>
  The standalone references header as the specification words it.  A number is one or more
  digits followed by any number of groups of a dot and one or more digits; the numbered
  form is such a number, whitespace, one of the two words, and then whitespace or the end.
\<close>

definition spec_dotted_number :: "string \<Rightarrow> bool" where
  "spec_dotted_number num =
     (\<exists>g gs. num = g @ concat (map (\<lambda>x. CHR ''.'' # x) gs)
        \<and> g \<noteq> [] \<and> list_all re_digit g
        \<and> (\<forall>x \<in> set gs. x \<noteq> [] \<and> list_all re_digit x))"

definition spec_numbered_references :: "string \<Rightarrow> bool" where
  "spec_numbered_references t =
     (\<exists>num ws kw rest. t = num @ ws @ kw @ rest
        \<and> spec_dotted_number num
        \<and> ws \<noteq> [] \<and> list_all chr_isspace ws
        \<and> (kw = ''references'' \<or> kw = ''bibliography'')
        \<and> (rest = [] \<or> chr_isspace (hd rest)))"

definition spec_standalone_references_header :: "string \<Rightarrow> bool" where
  "spec_standalone_references_header line =
     (let s = str_strip line; t = str_lower s
      in length (str_split s) \<le> 10
         \<and> (t = ''references'' \<or> t = ''bibliography''
              \<or> spec_numbered_references t
              \<or> (length (str_split s) \<le> 4
                  \<and> (startswith t ''references '' \<or> startswith t ''bibliography ''))))"

section \<open>Collaborators used in the examples\<close>

text \<open>
  \<open>quiet_collaborators\<close> answer every fact request with no content; \<open>responsive_collaborators\<close>
  answer it with a sentence; the fact request of \<open>failing_collaborators\<close> raises.  Their
  splitter returns the text as one window, as the sentence splitter does for a text
  shorter than its chunk size.
\<close>

definition quiet_collaborators :: "nat collaborators" where
  "quiet_collaborators =
     \<lparr>fact_completion = (\<lambda>_ _. Inr None),
      summary_completion = (\<lambda>_ _. Inr (Some ''A summary.'')),
      embeddings_create = (\<lambda>_ texts. Inr (map (\<lambda>_. [0]) texts)),
      sentence_splitter = (\<lambda>t. [t])\<rparr>"

definition responsive_collaborators :: "nat collaborators" where
  "responsive_collaborators =
     quiet_collaborators\<lparr>fact_completion := (\<lambda>_ _. Inr (Some ''A fact.''))\<rparr>"

definition failing_collaborators :: "nat collaborators" where
  "failing_collaborators =
     quiet_collaborators\<lparr>fact_completion := (\<lambda>_ _. Inl (OpenAIError ''timeout''))\<rparr>"

section \<open>The headers a run observes\<close>

text \<open>
  What a line does to the labels and to the references flag, read off the branches of the
  loop body: it opens a section or a subsection with the trimmed line as label, it enters
  the references, or it is no boundary (it is accumulated, or discarded inside the
  references).  The first argument is the references flag before the line.
\<close>

datatype transition = OpenSection string | OpenSubsection string | EnterReferences | NoBoundary

definition transition_of :: "bool \<Rightarrow> string \<Rightarrow> transition" where
  "transition_of in_refs line =
     (let line_stripped = str_strip line
      in if in_refs then
           (if is_appendix_header line_stripped then
              (case section_header_match line_stripped of
                 Some (num, header_title) \<Rightarrow>
                   if length (str_split line_stripped) \<le> 15 \<and> CHR ''.'' \<in> set num
                   then OpenSubsection line_stripped
                   else OpenSection line_stripped
               | None \<Rightarrow> OpenSection line_stripped)
            else NoBoundary)
         else if is_standalone_references_header line_stripped then EnterReferences
         else
           (case section_header_match line_stripped of
              Some (num, header_title) \<Rightarrow>
                if length (str_split line_stripped) \<le> 15 then
                  (if is_references_or_bibliography (str_strip header_title) then EnterReferences
                   else if CHR ''.'' \<in> set num then OpenSubsection line_stripped
                   else OpenSection line_stripped)
                else NoBoundary
            | None \<Rightarrow> NoBoundary))"

fun references_after :: "bool \<Rightarrow> transition \<Rightarrow> bool" where
  "references_after r (OpenSection l) = False"
| "references_after r (OpenSubsection l) = False"
| "references_after r EnterReferences = True"
| "references_after r NoBoundary = r"

text \<open>The transitions of a sequence of lines, in order.\<close>

fun observed :: "bool \<Rightarrow> string list \<Rightarrow> transition list" where
  "observed r [] = []"
| "observed r (line # rest) =
     transition_of r line # observed (references_after r (transition_of r line)) rest"

text \<open>
  The labels that the specification attaches to a history of transitions: the section is
  the label of the last section opened, the subsection the label of the last subsection
  opened if no section was opened after it, and none otherwise.
\<close>

fun labels_after :: "string option \<times> string option \<Rightarrow> transition \<Rightarrow> string option \<times> string option" where
  "labels_after (sec, sub) (OpenSection l) = (Some l, None)"
| "labels_after (sec, sub) (OpenSubsection l) = (sec, Some l)"
| "labels_after (sec, sub) EnterReferences = (sec, sub)"
| "labels_after (sec, sub) NoBoundary = (sec, sub)"

definition tracked_labels :: "transition list \<Rightarrow> string option \<times> string option" where
  "tracked_labels h = foldl labels_after (Some ''Abstract'', None) h"

definition document_lines :: "string list \<Rightarrow> string list" where
  "document_lines blocks = concat (map split_nl blocks)"

text \<open>The pair of labels of a state and of a chunk.\<close>

definition labels :: "'f seg_state \<Rightarrow> string option \<times> string option" where
  "labels st = (current_section st, current_subsection st)"

definition chunk_labels :: "'f RAGChunk \<Rightarrow> string option \<times> string option" where
  "chunk_labels ch = (section_label ch, subsection_label ch)"

text \<open>
  \<open>run_inv st st' h\<close>: going from \<open>st\<close> to \<open>st'\<close> while observing the transitions \<open>h\<close>,
  the labels and the references flag follow \<open>h\<close>, and every chunk emitted on the way has
  the labels that some prefix of \<open>h\<close> leads to.
\<close>

definition run_inv :: "'f seg_state \<Rightarrow> 'f seg_state \<Rightarrow> transition list \<Rightarrow> bool" where
  "run_inv st st' h =
     (labels st' = foldl labels_after (labels st) h
      \<and> in_references st' = foldl references_after (in_references st) h
      \<and> (\<forall>ch \<in> set (chunks_out st').
            ch \<in> set (chunks_out st)
            \<or> (\<exists>k \<le> length h. chunk_labels ch = foldl labels_after (labels st) (take k h))))"

text \<open>
  Names for two expressions of \<open>process_document\<close>: the text that the pages after the
  first add to the full text, and the blocks of a full text.
\<close>

definition following_pages :: "string option list \<Rightarrow> string" where
  "following_pages more_pages =
     (let rest_pages = str_join [nl, nl] (map (\<lambda>page. str_strip (or_empty page)) more_pages)
      in if str_strip rest_pages \<noteq> [] then [nl, nl] @ rest_pages else [])"

definition text_blocks :: "string \<Rightarrow> string list" where
  "text_blocks full_text =
     map str_strip (filter (\<lambda>b. str_strip b \<noteq> []) (split_nlnl full_text))"

text \<open>
  \<open>labelled_by ch h\<close>: the labels of the chunk are the ones that the history \<open>h\<close> leads
  to; its section is not null, and its subsection is a label only if \<open>h\<close> has a
  subsection header with that label and no section opened after it.
\<close>

definition labelled_by :: "'f RAGChunk \<Rightarrow> transition list \<Rightarrow> bool" where
  "labelled_by ch h =
     (section_label ch \<noteq> None
      \<and> (section_label ch, subsection_label ch) = tracked_labels h
      \<and> (\<forall>s. subsection_label ch = Some s
             \<longrightarrow> (\<exists>h1 h2. h = h1 @ OpenSubsection s # h2 \<and> (\<forall>x. OpenSection x \<notin> set h2))))"

section \<open>Facts about the string functions\<close>

lemma split_from_nonempty_words:
  "x \<in> set (split_from w cs) \<Longrightarrow> x \<noteq> []"
  by (induction cs arbitrary: w) (auto split: if_splits)

lemma str_split_nonempty_words: "filter (\<lambda>w. w \<noteq> []) (str_split s) = str_split s"
  unfolding str_split_def
  by (rule filter_True) (auto dest: split_from_nonempty_words)

section \<open>The prose classifier meets its specification\<close>

text \<open>
  C3.  For every string, \<open>_is_proper_chunk_text\<close> accepts it exactly when the trimmed text
  has at least 35 characters and at least 5 words, a digit fraction of at most 0.40, a
  fraction of one-character words of at most 0.28, a fraction of words with an alphabetic
  character of at least 0.50, a fraction of distinct lowercase word forms of at least 0.30,
  a terminal punctuation mark or an average word length of at least 3.2, and is not both
  fully uppercase and shorter than 80 characters.
\<close>

theorem classifier_meets_spec: "is_proper_chunk_text w = spec_accepts w"
proof (cases "35 \<le> length (str_strip w) \<and> 5 \<le> length (str_split (str_strip w))")
  case False
  then show ?thesis
    by (auto simp: is_proper_chunk_text_def spec_accepts_def long_enough_def Let_def
        str_split_nonempty_words)
next
  case True
  then have n: "max (length (str_strip w)) 1 = length (str_strip w)"
    and nw: "max (length (str_split (str_strip w))) 1 = length (str_split (str_strip w))"
    and ne: "str_strip w \<noteq> []"
    by auto
  have pe: "list_ex (\<lambda>c. c \<in> set t) ''.!?'' = has_terminal_punctuation t" for t
    by (auto simp: has_terminal_punctuation_def list_ex_iff)
  have u: "card (set (map str_lower ws)) = length (remdups (map str_lower ws))" for ws
    by (rule List.card_set)
  have "is_proper_chunk_text w =
     (digit_fraction (str_strip w) \<le> 4 / 10
      \<and> single_fraction (str_strip w) \<le> 28 / 100
      \<and> alpha_fraction (str_strip w) \<ge> 5 / 10
      \<and> distinct_fraction (str_strip w) \<ge> 3 / 10
      \<and> (has_terminal_punctuation (str_strip w) \<or> average_word_length (str_strip w) \<ge> 32 / 10)
      \<and> \<not> (str_isupper (str_strip w) \<and> length (str_strip w) < 80))"
    unfolding is_proper_chunk_text_def Let_def str_split_nonempty_words n nw pe u
      digit_fraction_def single_fraction_def alpha_fraction_def distinct_fraction_def
      average_word_length_def fraction_def
    using True ne by auto
  also have "\<dots> = spec_accepts w"
    unfolding spec_accepts_def Let_def long_enough_def using True by simp
  finally show ?thesis .
qed

theorem classifier_meets_spec_witness:
  "spec_accepts ''The method achieves 94% accuracy on the test set using a transformer encoder.''
   \<and> \<not> spec_accepts ''12 45 78 90 3 21''"
proof -
  have a: "is_proper_chunk_text
      ''The method achieves 94% accuracy on the test set using a transformer encoder.''"
    by code_simp
  have b: "\<not> is_proper_chunk_text ''12 45 78 90 3 21''"
    by code_simp
  show ?thesis
    using a b
      classifier_meets_spec
        [of "''The method achieves 94% accuracy on the test set using a transformer encoder.''"]
      classifier_meets_spec [of "''12 45 78 90 3 21''"]
    by blast
qed

section \<open>The sanitizer\<close>

lemma db_keeps_iff: "db_keeps c \<longleftrightarrow> \<not> db_rejects c"
  by (auto simp: db_keeps_def db_rejects_def py_ord_def nl_def)

text \<open>
  C10.  \<open>_sanitize_text_for_db\<close> returns \<open>None\<close> exactly for \<open>None\<close>.  For a string it
  returns the characters of the string, in their order, that are neither the null byte nor
  a control character below 32 other than newline, carriage return and tab: a subsequence
  of the input in which no such character is left, equal to the input when the input has
  none.
\<close>

theorem sanitize_text_for_db_spec:
  "(sanitize_text_for_db s = None \<longleftrightarrow> s = None)
   \<and> (\<forall>x. s = Some x \<longrightarrow>
        (\<exists>y. sanitize_text_for_db s = Some y
           \<and> y = filter (\<lambda>c. \<not> db_rejects c) x
           \<and> subseq y x
           \<and> \<not> list_ex db_rejects y
           \<and> (\<not> list_ex db_rejects x \<longrightarrow> y = x)))"
proof (cases s)
  case None
  then show ?thesis by (simp add: sanitize_text_for_db_def)
next
  case (Some x)
  have k: "db_keeps = (\<lambda>c. \<not> db_rejects c)"
    by (rule ext) (rule db_keeps_iff)
  have "\<not> list_ex db_rejects x \<Longrightarrow> filter (\<lambda>c. \<not> db_rejects c) x = x"
    by (simp add: list_ex_iff)
  moreover have "\<not> list_ex db_rejects (filter (\<lambda>c. \<not> db_rejects c) x)"
    by (simp add: list_ex_iff)
  ultimately show ?thesis
    using Some by (simp add: sanitize_text_for_db_def k)
qed

theorem sanitize_text_for_db_spec_witness:
  "sanitize_text_for_db (Some ''plain text'') = Some ''plain text''
   \<and> sanitize_text_for_db (Some [CHR ''a'', CHR 0x00, CHR 0x07, CHR 0x0A, CHR 0x09, CHR ''b'', CHR 0x1F, CHR 0x7F])
       = Some [CHR ''a'', CHR 0x0A, CHR 0x09, CHR ''b'', CHR 0x7F]
   \<and> sanitize_text_for_db None = None"
proof -
  have clean: "\<not> list_ex db_rejects ''plain text''"
    by code_simp
  have dirty: "filter (\<lambda>c. \<not> db_rejects c)
       [CHR ''a'', CHR 0x00, CHR 0x07, CHR 0x0A, CHR 0x09, CHR ''b'', CHR 0x1F, CHR 0x7F]
     = [CHR ''a'', CHR 0x0A, CHR 0x09, CHR ''b'', CHR 0x7F]"
    by code_simp
  show ?thesis
    using clean dirty
      sanitize_text_for_db_spec [of "Some ''plain text''"]
      sanitize_text_for_db_spec
        [of "Some [CHR ''a'', CHR 0x00, CHR 0x07, CHR 0x0A, CHR 0x09, CHR ''b'', CHR 0x1F, CHR 0x7F]"]
      sanitize_text_for_db_spec [of None]
    by auto
qed

section \<open>Trimming\<close>

lemma str_rstrip_idem: "str_rstrip (str_rstrip s) = str_rstrip s"
  by (simp add: str_rstrip_def dropWhile_idem)

lemma str_rstrip_decomp: "s = str_rstrip s @ rev (takeWhile chr_isspace (rev s))"
proof -
  have "rev (takeWhile chr_isspace (rev s) @ dropWhile chr_isspace (rev s)) = rev (rev s)"
    by (simp only: takeWhile_dropWhile_id)
  then show ?thesis
    by (simp only: rev_append rev_rev_ident str_rstrip_def)
qed

lemma hd_str_rstrip: "str_rstrip s \<noteq> [] \<Longrightarrow> hd (str_rstrip s) = hd s"
  using str_rstrip_decomp [of s] by (metis hd_append2)

lemma dropWhile_id_hd: "s = [] \<or> \<not> P (hd s) \<Longrightarrow> dropWhile P s = s"
  by (cases s) auto

lemma str_lstrip_hd: "str_lstrip s = [] \<or> \<not> chr_isspace (hd (str_lstrip s))"
  unfolding str_lstrip_def by (metis hd_dropWhile)

lemma str_lstrip_strip: "str_lstrip (str_strip s) = str_strip s"
proof (cases "str_strip s = []")
  case True
  then show ?thesis by (simp add: str_lstrip_def)
next
  case False
  then have "hd (str_strip s) = hd (str_lstrip s)"
    unfolding str_strip_def by (rule hd_str_rstrip)
  moreover have "str_lstrip s \<noteq> []"
    using False by (auto simp: str_strip_def str_rstrip_def)
  ultimately have "\<not> chr_isspace (hd (str_strip s))"
    using str_lstrip_hd [of s] by simp
  then show ?thesis
    unfolding str_lstrip_def by (intro dropWhile_id_hd) simp
qed

lemma str_strip_idem: "str_strip (str_strip s) = str_strip s"
proof -
  have "str_strip (str_strip s) = str_rstrip (str_lstrip (str_strip s))"
    by (simp add: str_strip_def)
  also have "\<dots> = str_rstrip (str_strip s)"
    by (simp add: str_lstrip_strip)
  also have "\<dots> = str_strip s"
    by (simp add: str_strip_def str_rstrip_idem)
  finally show ?thesis .
qed

section \<open>Rules for evaluating the string functions on literals\<close>

text \<open>The definitions, restricted to arguments that are character and list literals.\<close>

lemma chr_eval:
  "chr_isspace (Char b0 b1 b2 b3 b4 b5 b6 b7) =
     (let n = of_char (Char b0 b1 b2 b3 b4 b5 b6 b7) :: nat
      in (9 \<le> n \<and> n \<le> 13) \<or> (28 \<le> n \<and> n \<le> 32) \<or> n = 133 \<or> n = 160)"
  "chr_isdigit (Char b0 b1 b2 b3 b4 b5 b6 b7) =
     (let n = of_char (Char b0 b1 b2 b3 b4 b5 b6 b7) :: nat
      in (48 \<le> n \<and> n \<le> 57) \<or> n = 178 \<or> n = 179 \<or> n = 185)"
  "re_digit (Char b0 b1 b2 b3 b4 b5 b6 b7) =
     (let n = of_char (Char b0 b1 b2 b3 b4 b5 b6 b7) :: nat in 48 \<le> n \<and> n \<le> 57)"
  "chr_isupper (Char b0 b1 b2 b3 b4 b5 b6 b7) =
     (let n = of_char (Char b0 b1 b2 b3 b4 b5 b6 b7) :: nat
      in (65 \<le> n \<and> n \<le> 90) \<or> (192 \<le> n \<and> n \<le> 214) \<or> (216 \<le> n \<and> n \<le> 222))"
  "chr_islower (Char b0 b1 b2 b3 b4 b5 b6 b7) =
     (let n = of_char (Char b0 b1 b2 b3 b4 b5 b6 b7) :: nat
      in (97 \<le> n \<and> n \<le> 122) \<or> n = 170 \<or> n = 181 \<or> n = 186
         \<or> (223 \<le> n \<and> n \<le> 246) \<or> (248 \<le> n \<and> n \<le> 255))"
  "chr_isalpha (Char b0 b1 b2 b3 b4 b5 b6 b7) =
     (let n = of_char (Char b0 b1 b2 b3 b4 b5 b6 b7) :: nat
      in (65 \<le> n \<and> n \<le> 90) \<or> (97 \<le> n \<and> n \<le> 122) \<or> n = 170 \<or> n = 181 \<or> n = 186
         \<or> (192 \<le> n \<and> n \<le> 214) \<or> (216 \<le> n \<and> n \<le> 246) \<or> (248 \<le> n \<and> n \<le> 255))"
  by (simp_all only: chr_isspace_def chr_isdigit_def re_digit_def chr_isupper_def chr_islower_def
      chr_isalpha_def py_ord_def)

lemma chr_lower_eval:
  "chr_lower (Char b0 b1 b2 b3 b4 b5 b6 b7) =
     (if chr_isupper (Char b0 b1 b2 b3 b4 b5 b6 b7) then Char b0 b1 b2 b3 b4 True b6 b7
      else Char b0 b1 b2 b3 b4 b5 b6 b7)"
  by (cases b0; cases b1; cases b2; cases b3; cases b4; cases b5; cases b6; cases b7;
      simp add: chr_lower_def chr_isupper_def py_ord_def char_of_def bit_Suc_0_iff)

lemmas str_eval = chr_eval chr_lower_eval nl_def
  str_lower_def str_isupper_def str_split_def split_nl_def split_nlnl_def startswith_def
  str_lstrip_def [of "[]"] str_lstrip_def [of "c # cs" for c cs]
  str_rstrip_def [of "[]"] str_rstrip_def [of "c # cs" for c cs]
  str_strip_def [of "[]"] str_strip_def [of "c # cs" for c cs]

lemmas detect_eval = is_dotted_number_def
  section_header_match_def [of "[]"] section_header_match_def [of "c # cs" for c cs]
  is_references_or_bibliography_def [of "[]"]
  is_references_or_bibliography_def [of "c # cs" for c cs]
  numbered_references_match_def [of "[]"] numbered_references_match_def [of "c # cs" for c cs]
  is_standalone_references_header_def [of "[]"]
  is_standalone_references_header_def [of "c # cs" for c cs]
  is_appendix_header_def [of "[]"] is_appendix_header_def [of "c # cs" for c cs]
  abstract_line_match_def [of "[]"] abstract_line_match_def [of "c # cs" for c cs]

section \<open>Rules for evaluating the segmenter on literals\<close>

lemmas classifier_eval =
  is_proper_chunk_text_def [of "[]", unfolded List.card_set]
  is_proper_chunk_text_def [of "c # cs" for c cs, unfolded List.card_set]

lemmas seg_eval = or_empty_def extract_section_usage_line_def condense_sentences_to_summary_def
  chunk_section_def embed_text_def initial_state_def new_chunk_def flush_def append_part_def
  process_block_def first_page_from_abstract_def document_blocks_def process_document_def
  quiet_collaborators_def responsive_collaborators_def failing_collaborators_def Let_def

lemma prose_line_accepted: "is_proper_chunk_text ''We train a model on the big corpus.''"
  by (simp add: str_eval classifier_eval)

section \<open>The references header\<close>

lemma dotted_from_digits:
  "list_all re_digit ds \<Longrightarrow> dotted_from b (ds @ s) = dotted_from (b \<or> ds \<noteq> []) s"
  by (induction ds arbitrary: b) auto

lemma dot_not_digit: "\<not> re_digit CHR ''.''"
  by (simp add: re_digit_def py_ord_def)

lemma dotted_from_groups:
  "\<forall>x \<in> set gs. x \<noteq> [] \<and> list_all re_digit x \<Longrightarrow>
   dotted_from True (concat (map (\<lambda>x. CHR ''.'' # x) gs))"
  by (induction gs) (auto simp: dot_not_digit dotted_from_digits)

lemma spec_dotted_imp: "spec_dotted_number num \<Longrightarrow> is_dotted_number num"
  by (auto simp: spec_dotted_number_def is_dotted_number_def dotted_from_digits dotted_from_groups)

lemma dotted_from_decomp:
  "dotted_from b s \<Longrightarrow>
   \<exists>g gs. s = g @ concat (map (\<lambda>x. CHR ''.'' # x) gs) \<and> (b \<or> g \<noteq> []) \<and> list_all re_digit g
      \<and> (\<forall>x \<in> set gs. x \<noteq> [] \<and> list_all re_digit x)"
proof (induction s arbitrary: b)
  case Nil
  then show ?case by (intro exI [of _ "[]"]) simp
next
  case (Cons c cs)
  show ?case
  proof (cases "re_digit c")
    case True
    with Cons.prems have "dotted_from True cs" by simp
    from Cons.IH [OF this] obtain g gs where
      "cs = g @ concat (map (\<lambda>x. CHR ''.'' # x) gs)" "list_all re_digit g"
      "\<forall>x \<in> set gs. x \<noteq> [] \<and> list_all re_digit x"
      by blast
    then show ?thesis
      using True by (intro exI [of _ "c # g"] exI [of _ gs]) simp
  next
    case False
    with Cons.prems have c: "c = CHR ''.''" and b: b and "dotted_from False cs"
      by (auto split: if_splits)
    from Cons.IH [OF this(3)] obtain g gs where
      "cs = g @ concat (map (\<lambda>x. CHR ''.'' # x) gs)" "g \<noteq> []" "list_all re_digit g"
      "\<forall>x \<in> set gs. x \<noteq> [] \<and> list_all re_digit x"
      by blast
    then show ?thesis
      using c b by (intro exI [of _ "[]"] exI [of _ "g # gs"]) simp
  qed
qed

lemma is_dotted_number_iff: "is_dotted_number num \<longleftrightarrow> spec_dotted_number num"
proof
  assume "is_dotted_number num"
  then show "spec_dotted_number num"
    unfolding is_dotted_number_def spec_dotted_number_def
    by (drule_tac dotted_from_decomp) auto
qed (rule spec_dotted_imp)

lemma digit_not_space: "re_digit c \<Longrightarrow> \<not> chr_isspace c"
  by (auto simp: re_digit_def chr_isspace_def Let_def)

lemma dot_not_space: "\<not> chr_isspace CHR ''.''"
  by (simp add: chr_isspace_def py_ord_def)

lemma spec_dotted_no_space:
  assumes "spec_dotted_number num" and "c \<in> set num"
  shows "\<not> chr_isspace c"
proof -
  from assms(1) obtain g gs where
    num: "num = g @ concat (map (\<lambda>x. CHR ''.'' # x) gs)" and
    g: "list_all re_digit g" and gs: "\<forall>x \<in> set gs. x \<noteq> [] \<and> list_all re_digit x"
    unfolding spec_dotted_number_def by blast
  from assms(2) num have "c \<in> set g \<or> c = CHR ''.'' \<or> (\<exists>x \<in> set gs. c \<in> set x)"
    by (auto split: if_splits)
  then have "re_digit c \<or> c = CHR ''.''"
    using g gs by (auto simp: list_all_iff)
  then show ?thesis
    using digit_not_space dot_not_space by blast
qed

lemma takeWhile_stop:
  "\<forall>c \<in> set a. P c \<Longrightarrow> b \<noteq> [] \<Longrightarrow> \<not> P (hd b) \<Longrightarrow>
   takeWhile P (a @ b) = a \<and> dropWhile P (a @ b) = b"
  by (cases b) (auto simp: takeWhile_append2 dropWhile_append2)

lemma numbered_references_match_iff:
  "numbered_references_match t \<longleftrightarrow> spec_numbered_references t"
proof
  assume m: "numbered_references_match t"
  define num where "num = takeWhile (\<lambda>c. \<not> chr_isspace c) t"
  define r where "r = dropWhile (\<lambda>c. \<not> chr_isspace c) t"
  define ws where "ws = takeWhile chr_isspace r"
  define body where "body = dropWhile chr_isspace r"
  from m have all: "is_dotted_number num \<and> r \<noteq> []
      \<and> list_ex (\<lambda>kw. startswith body kw
            \<and> (case drop (length kw) body of [] \<Rightarrow> True | c # _ \<Rightarrow> chr_isspace c))
          [''references'', ''bibliography'']"
    unfolding numbered_references_match_def Let_def num_def r_def body_def .
  then have dn: "is_dotted_number num" and r: "r \<noteq> []"
    by blast+
  from all obtain kw where kw: "kw = ''references'' \<or> kw = ''bibliography''"
    and sw: "startswith body kw"
    and fin: "(case drop (length kw) body of [] \<Rightarrow> True | c # _ \<Rightarrow> chr_isspace c)"
    unfolding list_ex_Cons_iff list_ex_Nil_iff by blast
  have t: "t = num @ ws @ body"
    unfolding num_def ws_def body_def r_def by simp
  have "chr_isspace (hd r)"
    using r hd_dropWhile [of "\<lambda>c. \<not> chr_isspace c" t] unfolding r_def by auto
  then have ws: "ws \<noteq> []"
    using r unfolding ws_def by (cases r) auto
  have wsa: "list_all chr_isspace ws"
    unfolding ws_def list_all_iff by (auto dest: set_takeWhileD)
  have body: "body = kw @ drop (length kw) body"
    using sw unfolding startswith_def by (metis append_take_drop_id)
  have rest: "drop (length kw) body = [] \<or> chr_isspace (hd (drop (length kw) body))"
    using fin by (cases "drop (length kw) body") auto
  show "spec_numbered_references t"
    unfolding spec_numbered_references_def
    apply (rule exI [of _ num], rule exI [of _ ws], rule exI [of _ kw],
        rule exI [of _ "drop (length kw) body"])
    using t body dn ws wsa kw rest by (auto simp: is_dotted_number_iff)
next
  assume "spec_numbered_references t"
  then obtain num ws kw rest where t: "t = num @ ws @ kw @ rest"
    and dn: "spec_dotted_number num" and ws: "ws \<noteq> []" and wsa: "list_all chr_isspace ws"
    and kw: "kw = ''references'' \<or> kw = ''bibliography''"
    and rest: "rest = [] \<or> chr_isspace (hd rest)"
    unfolding spec_numbered_references_def by blast
  have kwne: "kw \<noteq> []" and kwhd: "\<not> chr_isspace (hd kw)"
    using kw by (auto simp: chr_isspace_def py_ord_def)
  have hws: "chr_isspace (hd ws)"
    using ws wsa by (cases ws) auto
  have 1: "takeWhile (\<lambda>c. \<not> chr_isspace c) t = num
           \<and> dropWhile (\<lambda>c. \<not> chr_isspace c) t = ws @ kw @ rest"
    unfolding t using ws hws spec_dotted_no_space [OF dn]
    by (intro takeWhile_stop) auto
  have 2: "dropWhile chr_isspace (ws @ kw @ rest) = kw @ rest"
    using takeWhile_stop [of ws chr_isspace "kw @ rest"] wsa kwne kwhd
    by (auto simp: list_all_iff)
  have 3: "(case rest of [] \<Rightarrow> True | c # _ \<Rightarrow> chr_isspace c)"
    using rest by (cases rest) auto
  show "numbered_references_match t"
    unfolding numbered_references_match_def Let_def
    using 1 2 3 dn ws kw by (auto simp: is_dotted_number_iff startswith_def)
qed

lemma standalone_references_header_iff:
  "is_standalone_references_header line = spec_standalone_references_header line"
proof (cases "str_strip line = []")
  case True
  have "\<not> spec_numbered_references []"
    by (auto simp: spec_numbered_references_def)
  with True show ?thesis
    by (simp add: is_standalone_references_header_def spec_standalone_references_header_def
        startswith_def str_lower_def)
next
  case False
  then show ?thesis
    by (auto simp: is_standalone_references_header_def spec_standalone_references_header_def
        Let_def numbered_references_match_iff)
qed

text \<open>
  C5.  A line is a standalone references header exactly when, after trimming, it has at
  most 10 tokens and its lowercase form is \<open>references\<close> or \<open>bibliography\<close>, or is a
  dotted number, whitespace and one of these two words followed by whitespace or the end,
  or it has at most 4 tokens and its lowercase form starts with \<open>references\<close> or
  \<open>bibliography\<close> and a space.  The title \<open>Learning to Retrieve References\<close> is not
  one.
\<close>

theorem standalone_references_header_spec:
  "is_standalone_references_header line = spec_standalone_references_header line
   \<and> \<not> is_standalone_references_header ''Learning to Retrieve References''"
proof -
  have "\<not> is_standalone_references_header ''Learning to Retrieve References''"
    by (simp add: str_eval detect_eval)
  then show ?thesis
    by (simp add: standalone_references_header_iff)
qed

theorem standalone_references_header_spec_witness:
  "spec_standalone_references_header ''References''
   \<and> spec_standalone_references_header ''6 References''
   \<and> spec_standalone_references_header ''Bibliography and notes''
   \<and> \<not> spec_standalone_references_header ''References of the five cited works''"
proof -
  have "is_standalone_references_header ''References''"
    and "is_standalone_references_header ''6 References''"
    and "is_standalone_references_header ''Bibliography and notes''"
    and "\<not> is_standalone_references_header ''References of the five cited works''"
    by (simp_all add: str_eval detect_eval)
  then show ?thesis
    using standalone_references_header_spec [of "''References''"]
      standalone_references_header_spec [of "''6 References''"]
      standalone_references_header_spec [of "''Bibliography and notes''"]
      standalone_references_header_spec [of "''References of the five cited works''"]
    by blast
qed

section \<open>The first page\<close>

lemma abstract_start_from_None:
  "abstract_start_from i ls = None \<longleftrightarrow> (\<forall>l \<in> set ls. \<not> abstract_line_match (str_strip l))"
  by (induction ls arbitrary: i) auto

lemma abstract_start_from_Some:
  "k < length ls \<Longrightarrow> abstract_line_match (str_strip (ls ! k)) \<Longrightarrow>
   (\<forall>j < k. \<not> abstract_line_match (str_strip (ls ! j))) \<Longrightarrow>
   abstract_start_from i ls = Some (i + k + 1)"
proof (induction ls arbitrary: i k)
  case Nil
  then show ?case by simp
next
  case (Cons l ls)
  show ?case
  proof (cases k)
    case 0
    with Cons.prems show ?thesis by simp
  next
    case (Suc k')
    with Cons.prems have "\<not> abstract_line_match (str_strip l)" by auto
    moreover have "abstract_start_from (i + 1) ls = Some (i + 1 + k' + 1)"
      using Cons.prems Suc by (intro Cons.IH) auto
    ultimately show ?thesis using Suc by simp
  qed
qed

lemma first_page_from_abstract_cases:
  "(\<forall>k. k < length (split_nl t)
        \<and> str_lower (str_strip (split_nl t ! k)) = ''abstract''
        \<and> (\<forall>j < k. str_lower (str_strip (split_nl t ! j)) \<noteq> ''abstract'')
        \<longrightarrow> first_page_from_abstract t = str_strip (str_join [nl] (drop (k + 1) (split_nl t))))
   \<and> ((\<forall>l \<in> set (split_nl t). str_lower (str_strip l) \<noteq> ''abstract'')
        \<longrightarrow> first_page_from_abstract t = t)"
proof -
  have m: "abstract_line_match (str_strip l) \<longleftrightarrow> str_lower (str_strip l) = ''abstract''" for l
    by (simp add: abstract_line_match_def str_strip_idem)
  show ?thesis
  proof (intro conjI allI impI ballI)
    fix k
    assume "k < length (split_nl t)
        \<and> str_lower (str_strip (split_nl t ! k)) = ''abstract''
        \<and> (\<forall>j < k. str_lower (str_strip (split_nl t ! j)) \<noteq> ''abstract'')"
    then have "abstract_start_from 0 (split_nl t) = Some (0 + k + 1)"
      by (intro abstract_start_from_Some) (auto simp: m)
    then show "first_page_from_abstract t = str_strip (str_join [nl] (drop (k + 1) (split_nl t)))"
      by (simp add: first_page_from_abstract_def)
  next
    assume "\<forall>l \<in> set (split_nl t). str_lower (str_strip l) \<noteq> ''abstract''"
    then have "abstract_start_from 0 (split_nl t) = None"
      by (simp add: abstract_start_from_None m)
    then show "first_page_from_abstract t = t"
      by (simp add: first_page_from_abstract_def)
  qed
qed

lemma document_blocks_text:
  "document_blocks (first_page # more_pages)
   = Inr (text_blocks (first_page_from_abstract (str_strip (or_empty first_page))
                       @ following_pages more_pages))"
  by (simp add: document_blocks_def text_blocks_def following_pages_def Let_def)

text \<open>
  C8.  The first-page text is the trimmed text of the first page, its lines those of
  \<open>split_nl\<close>.  If line \<open>k\<close> is the first that, trimmed and lowercased, is \<open>abstract\<close>,
  the blocks of the document are those of the text of the lines after line \<open>k\<close>, trimmed,
  followed by the text of the other pages; if no line is, they are those of the whole
  first-page text followed by the text of the other pages.  \<open>process_document\<close> segments
  these blocks from the initial state, whose section is \<open>Abstract\<close>, and returns the chunks
  of the state after the final flush.
\<close>

theorem first_page_trimming:
  "(\<forall>k. k < length (split_nl (str_strip (or_empty first_page)))
        \<and> str_lower (str_strip (split_nl (str_strip (or_empty first_page)) ! k)) = ''abstract''
        \<and> (\<forall>j < k. str_lower (str_strip (split_nl (str_strip (or_empty first_page)) ! j))
                    \<noteq> ''abstract'')
        \<longrightarrow> first_page_from_abstract (str_strip (or_empty first_page))
              = str_strip (str_join [nl] (drop (k + 1) (split_nl (str_strip (or_empty first_page)))))
            \<and> document_blocks (first_page # more_pages)
              = Inr (text_blocks
                       (str_strip (str_join [nl]
                          (drop (k + 1) (split_nl (str_strip (or_empty first_page)))))
                        @ following_pages more_pages)))
   \<and> ((\<forall>l \<in> set (split_nl (str_strip (or_empty first_page))).
          str_lower (str_strip l) \<noteq> ''abstract'')
        \<longrightarrow> first_page_from_abstract (str_strip (or_empty first_page))
              = str_strip (or_empty first_page)
            \<and> document_blocks (first_page # more_pages)
              = Inr (text_blocks (str_strip (or_empty first_page) @ following_pages more_pages)))
   \<and> (\<forall>blocks d chunks reqs.
         document_blocks pages = Inr blocks
         \<and> process_document c doc doc_title pages = Inr (d, chunks, reqs)
         \<longrightarrow> (\<exists>st st'. process_blocks c doc initial_state blocks = Inr st
                \<and> current_section (initial_state :: 'f seg_state) = Some ''Abstract''
                \<and> section_content (initial_state :: 'f seg_state) = []
                \<and> (if \<not> in_references st then flush c doc st else Inr st) = Inr st'
                \<and> chunks = chunks_out st'))"
proof (intro conjI allI impI)
  fix k
  assume h: "k < length (split_nl (str_strip (or_empty first_page)))
        \<and> str_lower (str_strip (split_nl (str_strip (or_empty first_page)) ! k)) = ''abstract''
        \<and> (\<forall>j < k. str_lower (str_strip (split_nl (str_strip (or_empty first_page)) ! j))
                    \<noteq> ''abstract'')"
  then show 1: "first_page_from_abstract (str_strip (or_empty first_page))
      = str_strip (str_join [nl] (drop (k + 1) (split_nl (str_strip (or_empty first_page)))))"
    using first_page_from_abstract_cases [of "str_strip (or_empty first_page)"] by blast
  show "document_blocks (first_page # more_pages)
      = Inr (text_blocks
               (str_strip (str_join [nl]
                  (drop (k + 1) (split_nl (str_strip (or_empty first_page)))))
                @ following_pages more_pages))"
    by (simp only: document_blocks_text 1)
next
  assume h: "\<forall>l \<in> set (split_nl (str_strip (or_empty first_page))).
          str_lower (str_strip l) \<noteq> ''abstract''"
  then show 2: "first_page_from_abstract (str_strip (or_empty first_page))
      = str_strip (or_empty first_page)"
    using first_page_from_abstract_cases [of "str_strip (or_empty first_page)"] by blast
  show "document_blocks (first_page # more_pages)
      = Inr (text_blocks (str_strip (or_empty first_page) @ following_pages more_pages))"
    by (simp only: document_blocks_text 2)
next
  fix blocks d chunks reqs
  assume "document_blocks pages = Inr blocks
         \<and> process_document c doc doc_title pages = Inr (d, chunks, reqs)"
  then show "\<exists>st st'. process_blocks c doc initial_state blocks = Inr st
                \<and> current_section (initial_state :: 'f seg_state) = Some ''Abstract''
                \<and> section_content (initial_state :: 'f seg_state) = []
                \<and> (if \<not> in_references st then flush c doc st else Inr st) = Inr st'
                \<and> chunks = chunks_out st'"
    by (auto simp: process_document_def initial_state_def split: sum.splits prod.splits)
qed

theorem first_page_trimming_witness:
  "document_blocks [Some ''A Title\<newline> ABSTRACT \<newline>Body text.''] = Inr [''Body text.'']
   \<and> document_blocks [Some ''No marker here''] = Inr [''No marker here'']
   \<and> (\<exists>st st'. process_blocks quiet_collaborators ''p'' initial_state [''Body text.''] = Inr st
         \<and> (if \<not> in_references st then flush quiet_collaborators ''p'' st else Inr st) = Inr st'
         \<and> [] = chunks_out st')"
proof -
  let ?t = "''A Title\<newline> ABSTRACT \<newline>Body text.''"
  have s: "str_strip (or_empty (Some ?t)) = ?t"
    and s2: "str_strip (or_empty (Some ''No marker here'')) = ''No marker here''"
    by (simp_all add: or_empty_def str_eval)
  have l: "split_nl ?t = [''A Title'', '' ABSTRACT '', ''Body text.'']"
    and l2: "split_nl ''No marker here'' = [''No marker here'']"
    by (simp_all add: str_eval)
  have a: "str_lower (str_strip ''A Title'') \<noteq> ''abstract''"
    and b: "str_lower (str_strip '' ABSTRACT '') = ''abstract''"
    and d: "str_lower (str_strip ''No marker here'') \<noteq> ''abstract''"
    by (simp_all add: str_eval)
  have tb: "text_blocks (str_strip (str_join [nl] [''Body text.'']) @ following_pages [])
            = [''Body text.'']"
    and tb2: "text_blocks (''No marker here'' @ following_pages []) = [''No marker here'']"
    by (simp_all add: text_blocks_def following_pages_def str_eval)
  have "1 < length (split_nl (str_strip (or_empty (Some ?t))))
        \<and> str_lower (str_strip (split_nl (str_strip (or_empty (Some ?t))) ! 1)) = ''abstract''
        \<and> (\<forall>j < 1. str_lower (str_strip (split_nl (str_strip (or_empty (Some ?t))) ! j))
                    \<noteq> ''abstract'')"
    using a b by (simp add: s l)
  from first_page_trimming [of "Some ?t" "[]", THEN conjunct1, rule_format, OF this]
  have 1: "document_blocks [Some ?t] = Inr [''Body text.'']"
    using tb by (simp add: s l)
  have "\<forall>l \<in> set (split_nl (str_strip (or_empty (Some ''No marker here'')))).
          str_lower (str_strip l) \<noteq> ''abstract''"
    using d by (simp add: s2 l2)
  from first_page_trimming [of "Some ''No marker here''" "[]",
      THEN conjunct2, THEN conjunct1, THEN mp, OF this]
  have 2: "document_blocks [Some ''No marker here''] = Inr [''No marker here'']"
    using tb2 by (simp add: s2)
  have p: "process_document quiet_collaborators ''p'' ''A title'' [Some ?t]
           = Inr (\<lparr>document_doc_id = ''p'', arxiv_id = ''p'', title = ''A title'',
                    document_summary = [], document_summary_embedding = None\<rparr>,
                  [], [FactRequest ''Section text:\<newline>Body text.''])"
    by (simp add: str_eval detect_eval seg_eval classifier_eval)
  have 3: "\<exists>st st'. process_blocks quiet_collaborators ''p'' initial_state [''Body text.''] = Inr st
         \<and> (if \<not> in_references st then flush quiet_collaborators ''p'' st else Inr st) = Inr st'
         \<and> [] = chunks_out st'"
    using first_page_trimming [of _ _ "[Some ?t]" quiet_collaborators "''p''" "''A title''",
        THEN conjunct2, THEN conjunct2, rule_format, of "[''Body text.'']"] 1 p
    by blast
  show ?thesis
    using 1 2 3 by blast
qed

section \<open>The summary of a document without fact sentences\<close>

lemma document_blocks_empty_page: "document_blocks [None] = Inr []"
  by (simp add: document_blocks_def or_empty_def first_page_from_abstract_def str_eval)

lemma flush_empty_buffer: "section_content st = [] \<Longrightarrow> flush c doc st = Inr st"
  by (simp add: flush_def)

text \<open>
  C9.  For an empty list of fact sentences \<open>_condense_sentences_to_summary\<close> returns the
  empty summary and makes no request, and \<open>_embed_text\<close> of the empty summary returns
  \<open>None\<close> and makes no request; so a document whose segmentation ends with no fact
  sentence gets the empty summary and no summary embedding, and the requests made are
  those of the segmentation.
\<close>

theorem empty_fact_list_no_summary:
  "condense_sentences_to_summary c reqs [] = Inr ([], reqs)
   \<and> embed_text c reqs [] = Inr (None, reqs)
   \<and> (\<forall>blocks st st'.
         document_blocks pages = Inr blocks
         \<and> process_blocks c doc initial_state blocks = Inr st
         \<and> (if \<not> in_references st then flush c doc st else Inr st) = Inr st'
         \<and> section_sentences st' = []
         \<longrightarrow> process_document c doc doc_title pages
               = Inr (\<lparr>document_doc_id = doc, arxiv_id = doc, title = doc_title,
                       document_summary = [], document_summary_embedding = None\<rparr>,
                      chunks_out st', requests st'))"
  by (simp add: condense_sentences_to_summary_def embed_text_def process_document_def)

theorem empty_fact_list_no_summary_witness:
  "process_document quiet_collaborators ''2005.11401v4'' ''A title'' [None]
     = Inr (\<lparr>document_doc_id = ''2005.11401v4'', arxiv_id = ''2005.11401v4'',
              title = ''A title'', document_summary = [],
              document_summary_embedding = None\<rparr>, [], [])"
proof -
  have "document_blocks [None] = Inr []
         \<and> process_blocks quiet_collaborators ''2005.11401v4'' initial_state [] = Inr initial_state
         \<and> (if \<not> in_references (initial_state :: nat seg_state)
             then flush quiet_collaborators ''2005.11401v4'' initial_state
             else Inr initial_state) = Inr initial_state
         \<and> section_sentences (initial_state :: nat seg_state) = []"
    by (simp add: document_blocks_empty_page flush_empty_buffer initial_state_def)
  with empty_fact_list_no_summary
    [of quiet_collaborators _ "[None]" "''2005.11401v4''" "''A title''",
      THEN conjunct2, THEN conjunct2, rule_format,
      of "[]" initial_state initial_state]
  show ?thesis
    by (simp add: initial_state_def)
qed

section \<open>Flushing\<close>

lemma lines_from_nonempty: "lines_from w s \<noteq> []"
  by (induction s arbitrary: w) auto

lemma flush_labels:
  "flush c doc st = Inr st' \<Longrightarrow>
   current_section st' = current_section st \<and> current_subsection st' = current_subsection st
   \<and> in_references st' = in_references st"
  by (auto simp: flush_def Let_def split: if_splits sum.splits prod.splits)

lemma process_line_flush_error:
  assumes "transition_of (in_references st) line \<noteq> NoBoundary"
    and "flush c doc (append_part cp (st\<lparr>in_references := False\<rparr>)) = Inl e"
  shows "process_line c doc (st, cp) line = Inl e"
proof (cases "in_references st")
  case True
  with assms(1) have "is_appendix_header (str_strip line)"
    by (auto simp: transition_of_def Let_def split: if_splits)
  with True assms(2) show ?thesis
    by (simp add: Let_def)
next
  case False
  then have "st\<lparr>in_references := False\<rparr> = st"
    by simp
  with assms(2) have f: "flush c doc (append_part cp st) = Inl e"
    by simp
  show ?thesis
    using False assms(1) f
    by (auto simp: transition_of_def Let_def split: if_splits option.splits)
qed

lemma process_lines_error:
  "process_lines c doc sp ls1 = Inr sp' \<Longrightarrow> process_line c doc sp' l = Inl e \<Longrightarrow>
   process_lines c doc sp (ls1 @ l # ls2) = Inl e"
  by (induction ls1 arbitrary: sp) (auto split: sum.splits)

lemma process_blocks_error:
  "process_blocks c doc st bs1 = Inr st1 \<Longrightarrow> process_block c doc st1 b = Inl e \<Longrightarrow>
   process_blocks c doc st (bs1 @ b # bs2) = Inl e"
  by (induction bs1 arbitrary: st) (auto split: sum.splits)

lemma header_flush_error_aborts:
  assumes "document_blocks pages = Inr (bs1 @ b # bs2)"
    and "process_blocks c doc initial_state bs1 = Inr st1"
    and "split_nl b = ls1 @ l # ls2"
    and "process_lines c doc (st1, []) ls1 = Inr (st2, cp)"
    and "transition_of (in_references st2) l \<noteq> NoBoundary"
    and "flush c doc (append_part cp (st2\<lparr>in_references := False\<rparr>)) = Inl e"
  shows "process_document c doc doc_title pages = Inl e"
proof -
  have "process_line c doc (st2, cp) l = Inl e"
    using assms(5,6) by (rule process_line_flush_error)
  with assms(4) have "process_lines c doc (st1, []) (ls1 @ l # ls2) = Inl e"
    by (rule process_lines_error)
  then have "process_block c doc st1 b = Inl e"
    by (simp add: process_block_def assms(3))
  with assms(2) have "process_blocks c doc initial_state (bs1 @ b # bs2) = Inl e"
    by (rule process_blocks_error)
  with assms(1) show ?thesis
    by (simp add: process_document_def)
qed

text \<open>
  C1, as the code has it.  On a buffer whose joined text is not blank, a fact request that
  answers makes \<open>flush\<close> emit a chunk, with the current section and subsection as its
  labels, for every window that the classifier accepts, clear the buffer and keep the
  labels, and a blank answer adds no fact sentence.  A fact request that raises makes
  \<open>flush\<close> raise the same error; and a flush that raises, whether it is the flush at a
  boundary line of some block or the final flush, makes \<open>process_document\<close> raise that
  error, so that no chunk is returned.
\<close>

theorem fact_request_outcomes:
  "(\<forall>combined.
       section_content st \<noteq> []
       \<and> str_strip (str_join '' '' (section_content st)) = combined \<and> combined \<noteq> []
       \<longrightarrow> (\<forall>e. fact_completion c (requests st)
                    (''Section text:'' @ [nl] @ take 8000 combined) = Inl e
                 \<longrightarrow> flush c doc st = Inl e)
          \<and> (\<forall>resp. fact_completion c (requests st)
                       (''Section text:'' @ [nl] @ take 8000 combined) = Inr resp
                 \<longrightarrow> (\<exists>st'. flush c doc st = Inr st'
                        \<and> chunks_out st'
                            = chunks_out st
                              @ map (\<lambda>x. \<lparr>doc_id = doc, content = x, embedding = None,
                                         section_label = current_section st,
                                         subsection_label = current_subsection st\<rparr>)
                                  (filter (\<lambda>x. x \<noteq> [] \<and> is_proper_chunk_text x)
                                     (chunk_section c combined))
                        \<and> (str_strip (or_empty resp) = []
                             \<longrightarrow> section_sentences st' = section_sentences st)
                        \<and> section_content st' = []
                        \<and> current_section st' = current_section st
                        \<and> current_subsection st' = current_subsection st)))
   \<and> (\<forall>bs1 b bs2 st1 ls1 l ls2 st2 cp e.
         document_blocks pages = Inr (bs1 @ b # bs2)
         \<and> process_blocks c doc initial_state bs1 = Inr st1
         \<and> split_nl b = ls1 @ l # ls2
         \<and> process_lines c doc (st1, []) ls1 = Inr (st2, cp)
         \<and> transition_of (in_references st2) l \<noteq> NoBoundary
         \<and> flush c doc (append_part cp (st2\<lparr>in_references := False\<rparr>)) = Inl e
         \<longrightarrow> process_document c doc doc_title pages = Inl e)
   \<and> (\<forall>blocks st1 e.
         document_blocks pages = Inr blocks
         \<and> process_blocks c doc initial_state blocks = Inr st1
         \<and> \<not> in_references st1 \<and> flush c doc st1 = Inl e
         \<longrightarrow> process_document c doc doc_title pages = Inl e)"
proof (intro conjI allI impI)
  fix combined e
  assume h: "section_content st \<noteq> []
       \<and> str_strip (str_join '' '' (section_content st)) = combined \<and> combined \<noteq> []"
    and f: "fact_completion c (requests st) (''Section text:'' @ [nl] @ take 8000 combined) = Inl e"
  have "str_strip combined = combined"
    using h str_strip_idem by metis
  with h have "str_strip combined \<noteq> []"
    by simp
  with h f show "flush c doc st = Inl e"
    by (simp add: flush_def extract_section_usage_line_def)
next
  fix combined resp
  assume h: "section_content st \<noteq> []
       \<and> str_strip (str_join '' '' (section_content st)) = combined \<and> combined \<noteq> []"
    and r: "fact_completion c (requests st) (''Section text:'' @ [nl] @ take 8000 combined) = Inr resp"
  have "str_strip combined = combined"
    using h str_strip_idem by metis
  with h have s: "str_strip combined \<noteq> []"
    by simp
  have n: "new_chunk doc st = (\<lambda>x. \<lparr>doc_id = doc, content = x, embedding = None,
                                 section_label = current_section st,
                                 subsection_label = current_subsection st\<rparr>)"
    by (rule ext) (simp add: new_chunk_def)
  show "\<exists>st'. flush c doc st = Inr st'
          \<and> chunks_out st'
              = chunks_out st
                @ map (\<lambda>x. \<lparr>doc_id = doc, content = x, embedding = None,
                           section_label = current_section st,
                           subsection_label = current_subsection st\<rparr>)
                    (filter (\<lambda>x. x \<noteq> [] \<and> is_proper_chunk_text x) (chunk_section c combined))
          \<and> (str_strip (or_empty resp) = [] \<longrightarrow> section_sentences st' = section_sentences st)
          \<and> section_content st' = []
          \<and> current_section st' = current_section st
          \<and> current_subsection st' = current_subsection st"
  proof (cases "str_strip (or_empty resp) = []")
    case True
    then show ?thesis
      using h r s by (simp add: flush_def extract_section_usage_line_def n)
  next
    case False
    obtain first others where "split_nl (str_strip (or_empty resp)) = first # others"
      using lines_from_nonempty [of "[]" "str_strip (or_empty resp)"]
      by (cases "split_nl (str_strip (or_empty resp))") (auto simp: split_nl_def)
    then show ?thesis
      using h r s False by (simp add: flush_def extract_section_usage_line_def n)
  qed
next
  fix bs1 b bs2 st1 ls1 l ls2 st2 cp e
  assume "document_blocks pages = Inr (bs1 @ b # bs2)
         \<and> process_blocks c doc initial_state bs1 = Inr st1
         \<and> split_nl b = ls1 @ l # ls2
         \<and> process_lines c doc (st1, []) ls1 = Inr (st2, cp)
         \<and> transition_of (in_references st2) l \<noteq> NoBoundary
         \<and> flush c doc (append_part cp (st2\<lparr>in_references := False\<rparr>)) = Inl e"
  then show "process_document c doc doc_title pages = Inl e"
    using header_flush_error_aborts by blast
next
  fix blocks st1 e
  assume "document_blocks pages = Inr blocks
         \<and> process_blocks c doc initial_state blocks = Inr st1
         \<and> \<not> in_references st1 \<and> flush c doc st1 = Inl e"
  then show "process_document c doc doc_title pages = Inl e"
    by (simp add: process_document_def)
qed

theorem fact_request_outcomes_witness:
  "flush failing_collaborators ''p''
      (initial_state\<lparr>section_content := [''We train a model on the big corpus.'']\<rparr>)
     = Inl (OpenAIError ''timeout'')
   \<and> (\<exists>st'. flush quiet_collaborators ''p''
               (initial_state\<lparr>section_content := [''We train a model on the big corpus.'']\<rparr>)
             = Inr st'
           \<and> chunks_out st'
               = [\<lparr>doc_id = ''p'', content = ''We train a model on the big corpus.'',
                   embedding = None, section_label = Some ''Abstract'',
                   subsection_label = None\<rparr>]
           \<and> section_sentences st' = [])
   \<and> process_document failing_collaborators ''p'' ''A title''
        [Some ''Text.\<newline>1 Intro\<newline>More.'']
      = Inl (OpenAIError ''timeout'')
   \<and> process_document failing_collaborators ''p'' ''A title'' [Some ''Text.'']
      = Inl (OpenAIError ''timeout'')"
proof -
  let ?st = "initial_state\<lparr>section_content := [''We train a model on the big corpus.'']\<rparr> :: nat seg_state"
  let ?t = "OpenAIError ''timeout''"
  have a: "section_content ?st \<noteq> []
      \<and> str_strip (str_join '' '' (section_content ?st)) = ''We train a model on the big corpus.''
      \<and> ''We train a model on the big corpus.'' \<noteq> []"
    by (simp add: initial_state_def str_eval)
  have f: "fact_completion failing_collaborators (requests ?st)
             (''Section text:'' @ [nl] @ take 8000 ''We train a model on the big corpus.'') = Inl ?t"
    and q: "fact_completion quiet_collaborators (requests ?st)
             (''Section text:'' @ [nl] @ take 8000 ''We train a model on the big corpus.'')
           = Inr None"
    by (simp_all add: failing_collaborators_def quiet_collaborators_def)
  have w: "chunk_section quiet_collaborators ''We train a model on the big corpus.''
           = [''We train a model on the big corpus.'']"
    by (simp add: chunk_section_def quiet_collaborators_def str_eval)
  note flush_part = fact_request_outcomes [THEN conjunct1, rule_format, OF a]
  have 1: "flush failing_collaborators ''p'' ?st = Inl ?t"
    using flush_part [of failing_collaborators "''p''", THEN conjunct1, rule_format, OF f] .
  have 2: "\<exists>st'. flush quiet_collaborators ''p'' ?st = Inr st'
           \<and> chunks_out st'
               = [\<lparr>doc_id = ''p'', content = ''We train a model on the big corpus.'',
                   embedding = None, section_label = Some ''Abstract'',
                   subsection_label = None\<rparr>]
           \<and> section_sentences st' = []"
    using flush_part [of quiet_collaborators "''p''", THEN conjunct2, rule_format, OF q]
      w prose_line_accepted
    by (auto simp: or_empty_def initial_state_def str_eval)
  have h: "document_blocks [Some ''Text.\<newline>1 Intro\<newline>More.'']
             = Inr ([] @ ''Text.\<newline>1 Intro\<newline>More.'' # [])
         \<and> process_blocks failing_collaborators ''p'' initial_state [] = Inr initial_state
         \<and> split_nl ''Text.\<newline>1 Intro\<newline>More.'' = [''Text.''] @ ''1 Intro'' # [''More.'']
         \<and> process_lines failing_collaborators ''p'' (initial_state, []) [''Text.'']
             = Inr (initial_state, [''Text.''])
         \<and> transition_of (in_references (initial_state :: nat seg_state)) ''1 Intro'' \<noteq> NoBoundary
         \<and> flush failing_collaborators ''p''
              (append_part [''Text.''] (initial_state\<lparr>in_references := False\<rparr>)) = Inl ?t"
    by (simp add: str_eval detect_eval seg_eval transition_of_def)
  have 3: "process_document failing_collaborators ''p'' ''A title''
        [Some ''Text.\<newline>1 Intro\<newline>More.''] = Inl ?t"
    using fact_request_outcomes [THEN conjunct2, THEN conjunct1, rule_format, OF h] .
  have g: "document_blocks [Some ''Text.''] = Inr [''Text.'']
         \<and> process_blocks failing_collaborators ''p'' initial_state [''Text.'']
             = Inr (initial_state\<lparr>section_content := [''Text.'']\<rparr>)
         \<and> \<not> in_references (initial_state\<lparr>section_content := [''Text.'']\<rparr> :: nat seg_state)
         \<and> flush failing_collaborators ''p'' (initial_state\<lparr>section_content := [''Text.'']\<rparr>)
             = Inl ?t"
    by (simp add: str_eval detect_eval seg_eval)
  have 4: "process_document failing_collaborators ''p'' ''A title'' [Some ''Text.''] = Inl ?t"
    using fact_request_outcomes [THEN conjunct2, THEN conjunct2, rule_format, OF g] .
  show ?thesis
    using 1 2 3 4 by blast
qed

text \<open>
  The claim C1 fails: with a fact-sentence collaborator that raises, a one-page document
  whose text is a window that the classifier accepts gives the error, and no chunk.
\<close>

theorem failed_fact_request_aborts_document:
  "process_document failing_collaborators ''p'' ''A title''
      [Some ''We train a model on the big corpus.'']
     = Inl (OpenAIError ''timeout'')
   \<and> chunk_section failing_collaborators ''We train a model on the big corpus.''
       = [''We train a model on the big corpus.'']
   \<and> is_proper_chunk_text ''We train a model on the big corpus.''"
  by (simp add: str_eval detect_eval seg_eval classifier_eval)

section \<open>A references header and an appendix header in one block\<close>

text \<open>
  C2 fails on the code.  The block below has a line of prose, the references header, a
  reference and an appendix header, with no blank line between them.  Entering the
  references state flushes the prose but leaves it in \<open>current_part\<close>; the appendix header
  appends \<open>current_part\<close> to the buffer and flushes again.  The prose is emitted twice, as
  two chunks and two fact sentences, the second time at the appendix header.
\<close>

theorem references_then_appendix_emits_twice:
  "process_blocks responsive_collaborators ''p'' initial_state
      [''We train a model on the big corpus.\<newline>References\<newline>[1] A. Author.\<newline>Appendix A'']
     = Inr \<lparr>chunks_out =
              [\<lparr>doc_id = ''p'', content = ''We train a model on the big corpus.'',
                embedding = None, section_label = Some ''Abstract'', subsection_label = None\<rparr>,
               \<lparr>doc_id = ''p'', content = ''We train a model on the big corpus.'',
                embedding = None, section_label = Some ''Abstract'', subsection_label = None\<rparr>],
            current_section = Some ''Appendix A'', current_subsection = None,
            section_content = [], section_sentences = [''A fact.'', ''A fact.''],
            in_references = False,
            requests =
              [FactRequest ''Section text:\<newline>We train a model on the big corpus.'',
               FactRequest ''Section text:\<newline>We train a model on the big corpus.'']\<rparr>"
  by (simp add: str_eval detect_eval seg_eval classifier_eval)

section \<open>Numbered headers that name the references\<close>




section \<open>Labels of the emitted chunks\<close>

lemma flush_chunks:
  "flush c doc st = Inr st' \<Longrightarrow> ch \<in> set (chunks_out st') \<Longrightarrow>
   ch \<in> set (chunks_out st) \<or> chunk_labels ch = labels st"
  by (auto simp: flush_def Let_def new_chunk_def chunk_labels_def labels_def
      split: if_splits sum.splits prod.splits)

lemma flush_labels': "flush c doc st = Inr st' \<Longrightarrow> labels st' = labels st \<and> in_references st' = in_references st"
  using flush_labels [of c doc st st'] by (simp add: labels_def)

lemma append_part_simps:
  "labels (append_part cp st) = labels st"
  "in_references (append_part cp st) = in_references st"
  "chunks_out (append_part cp st) = chunks_out st"
  by (simp_all add: append_part_def labels_def)

lemma flush_append_part_step:
  assumes "flush c doc (append_part cp st0) = Inr st1"
  shows "labels st1 = labels st0 \<and> in_references st1 = in_references st0
       \<and> (\<forall>ch \<in> set (chunks_out st1). ch \<in> set (chunks_out st0) \<or> chunk_labels ch = labels st0)"
  using flush_labels' [OF assms] flush_chunks [OF assms] by (auto simp: append_part_simps)

lemma labels_updates:
  "labels (st\<lparr>in_references := r\<rparr>) = labels st"
  "labels (st\<lparr>current_subsection := b\<rparr>) = (current_section st, b)"
  "labels (st\<lparr>current_section := a, current_subsection := b\<rparr>) = (a, b)"
  by (simp_all add: labels_def)

lemma process_line_step:
  assumes "process_line c doc (st, cp) line = Inr (st', cp')"
  shows "labels st' = labels_after (labels st) (transition_of (in_references st) line)
       \<and> in_references st' = references_after (in_references st) (transition_of (in_references st) line)
       \<and> (\<forall>ch \<in> set (chunks_out st'). ch \<in> set (chunks_out st) \<or> chunk_labels ch = labels st)"
proof (cases "in_references st")
  case True
  show ?thesis
  proof (cases "is_appendix_header (str_strip line)")
    case False
    with True assms show ?thesis
      by (cases "labels st") (auto simp: transition_of_def)
  next
    case app: True
    with True assms obtain st1 where
      f: "flush c doc (append_part cp (st\<lparr>in_references := False\<rparr>)) = Inr st1"
      by (auto simp: Let_def split: sum.splits)
    note s = flush_append_part_step [OF f, unfolded labels_updates]
    have l: "labels st = (current_section st1, current_subsection st1)"
      using s by (simp add: labels_def)
    show ?thesis
      using True app assms f s
      by (auto simp: Let_def transition_of_def labels_updates l labels_def
          split: option.splits if_splits; blast)
  qed
next
  case False
  show ?thesis
  proof (cases "is_standalone_references_header (str_strip line)")
    case True
    with False assms obtain st1 where
      f: "flush c doc (append_part cp st) = Inr st1"
      by (auto simp: Let_def split: sum.splits)
    note s = flush_append_part_step [OF f]
    show ?thesis
      using True False assms f s
      by (cases "labels st") (auto simp: Let_def transition_of_def labels_updates; blast)
  next
    case nst: False
    show ?thesis
    proof (cases "\<exists>num ht. section_header_match (str_strip line) = Some (num, ht)
                     \<and> length (str_split (str_strip line)) \<le> 15")
      case False
      with \<open>\<not> in_references st\<close> nst assms show ?thesis
        by (cases "labels st")
          (auto simp: Let_def transition_of_def split: option.splits if_splits)
    next
      case True
      then obtain num ht where m: "section_header_match (str_strip line) = Some (num, ht)"
        and n: "length (str_split (str_strip line)) \<le> 15"
        by blast
      with \<open>\<not> in_references st\<close> nst assms obtain st1 where
        f: "flush c doc (append_part cp st) = Inr st1"
        by (auto simp: Let_def split: sum.splits)
      note s = flush_append_part_step [OF f]
      have l: "labels st = (current_section st1, current_subsection st1)"
        using s by (simp add: labels_def)
      show ?thesis
        using \<open>\<not> in_references st\<close> nst m n assms f s
        by (auto simp: Let_def transition_of_def labels_updates l labels_def
            split: if_splits; blast)
    qed
  qed
qed

lemma run_inv_refl: "run_inv st st []"
  by (simp add: run_inv_def)

lemma run_inv_trans:
  assumes "run_inv st st1 h1" and "run_inv st1 st2 h2"
  shows "run_inv st st2 (h1 @ h2)"
  unfolding run_inv_def
proof (intro conjI ballI)
  show "labels st2 = foldl labels_after (labels st) (h1 @ h2)"
    and "in_references st2 = foldl references_after (in_references st) (h1 @ h2)"
    using assms by (simp_all add: run_inv_def)
next
  fix ch
  assume ch: "ch \<in> set (chunks_out st2)"
  show "ch \<in> set (chunks_out st)
        \<or> (\<exists>k \<le> length (h1 @ h2). chunk_labels ch = foldl labels_after (labels st) (take k (h1 @ h2)))"
  proof (cases "ch \<in> set (chunks_out st1)")
    case True
    with assms(1) consider "ch \<in> set (chunks_out st)"
      | k where "k \<le> length h1" "chunk_labels ch = foldl labels_after (labels st) (take k h1)"
      unfolding run_inv_def by blast
    then show ?thesis
    proof cases
      case 1
      then show ?thesis by simp
    next
      case 2
      then have "k \<le> length (h1 @ h2)
          \<and> chunk_labels ch = foldl labels_after (labels st) (take k (h1 @ h2))"
        by simp
      then show ?thesis by blast
    qed
  next
    case False
    with assms(2) ch obtain k where k: "k \<le> length h2"
      and l: "chunk_labels ch = foldl labels_after (labels st1) (take k h2)"
      unfolding run_inv_def by blast
    have "labels st1 = foldl labels_after (labels st) h1"
      using assms(1) by (simp add: run_inv_def)
    with l have "chunk_labels ch = foldl labels_after (labels st) (take (length h1 + k) (h1 @ h2))"
      by simp
    moreover have "length h1 + k \<le> length (h1 @ h2)"
      using k by simp
    ultimately show ?thesis by blast
  qed
qed

lemma run_inv_step:
  assumes "process_line c doc (st, cp) line = Inr (st', cp')"
  shows "run_inv st st' [transition_of (in_references st) line]"
  unfolding run_inv_def
proof (intro conjI ballI)
  note s = process_line_step [OF assms]
  show "labels st' = foldl labels_after (labels st) [transition_of (in_references st) line]"
    and "in_references st'
         = foldl references_after (in_references st) [transition_of (in_references st) line]"
    using s by simp_all
  fix ch
  assume "ch \<in> set (chunks_out st')"
  with s have "ch \<in> set (chunks_out st) \<or> chunk_labels ch = labels st"
    by blast
  then show "ch \<in> set (chunks_out st)
      \<or> (\<exists>k \<le> length [transition_of (in_references st) line].
            chunk_labels ch
            = foldl labels_after (labels st) (take k [transition_of (in_references st) line]))"
    by (auto intro: exI [of _ 0])
qed

lemma run_inv_lines:
  "process_lines c doc (st, cp) ls = Inr (st', cp') \<Longrightarrow>
   run_inv st st' (observed (in_references st) ls)"
proof (induction ls arbitrary: st cp)
  case Nil
  then show ?case by (simp add: run_inv_refl)
next
  case (Cons line rest)
  from Cons.prems obtain st1 cp1 where
    1: "process_line c doc (st, cp) line = Inr (st1, cp1)" and
    2: "process_lines c doc (st1, cp1) rest = Inr (st', cp')"
    by (auto split: sum.splits)
  have r: "in_references st1
           = references_after (in_references st) (transition_of (in_references st) line)"
    using process_line_step [OF 1] by simp
  have "run_inv st st' ([transition_of (in_references st) line]
          @ observed (in_references st1) rest)"
    using run_inv_step [OF 1] Cons.IH [OF 2] by (rule run_inv_trans)
  then show ?case
    by (simp add: r)
qed

lemma run_inv_section_content:
  "run_inv st st' h \<Longrightarrow> run_inv st (st'\<lparr>section_content := x\<rparr>) h"
  by (simp add: run_inv_def labels_def)

lemma run_inv_block:
  assumes "process_block c doc st block = Inr st'"
  shows "run_inv st st' (observed (in_references st) (split_nl block))"
proof -
  from assms obtain st1 cp1 where
    1: "process_lines c doc (st, []) (split_nl block) = Inr (st1, cp1)" and
    2: "st' = (if \<not> in_references st1 \<and> cp1 \<noteq> []
               then st1\<lparr>section_content := section_content st1 @ [str_join [nl] cp1]\<rparr>
               else st1)"
    by (auto simp: process_block_def split: sum.splits prod.splits)
  show ?thesis
    using run_inv_lines [OF 1] by (simp add: 2 run_inv_section_content)
qed

lemma observed_append:
  "observed r (xs @ ys) = observed r xs @ observed (foldl references_after r (observed r xs)) ys"
  by (induction xs arbitrary: r) simp_all

lemma length_observed: "length (observed r ls) = length ls"
  by (induction ls arbitrary: r) simp_all

lemma run_inv_blocks:
  "process_blocks c doc st blocks = Inr st' \<Longrightarrow>
   run_inv st st' (observed (in_references st) (document_lines blocks))"
proof (induction blocks arbitrary: st)
  case Nil
  then show ?case by (simp add: document_lines_def run_inv_refl)
next
  case (Cons block rest)
  from Cons.prems obtain st1 where
    1: "process_block c doc st block = Inr st1" and
    2: "process_blocks c doc st1 rest = Inr st'"
    by (auto split: sum.splits)
  have r: "in_references st1
           = foldl references_after (in_references st) (observed (in_references st) (split_nl block))"
    using run_inv_block [OF 1] by (simp add: run_inv_def)
  have "run_inv st st' (observed (in_references st) (split_nl block)
          @ observed (in_references st1) (document_lines rest))"
    using run_inv_block [OF 1] Cons.IH [OF 2] by (rule run_inv_trans)
  then show ?case
    by (simp add: document_lines_def observed_append r)
qed

lemma run_inv_flush:
  assumes "flush c doc st = Inr st'"
  shows "run_inv st st' []"
  using flush_labels' [OF assms] flush_chunks [OF assms]
  by (auto simp: run_inv_def)

lemma tracked_section_some:
  "fst (foldl labels_after (Some s, x) h) \<noteq> None"
proof (induction h rule: rev_induct)
  case Nil
  then show ?case by simp
next
  case (snoc t h)
  then show ?case
    by (cases t; cases "foldl labels_after (Some s, x) h") auto
qed

lemma tracked_subsection_some:
  "foldl labels_after (sec, None) h = (sec', Some l) \<Longrightarrow>
   \<exists>h1 h2. h = h1 @ OpenSubsection l # h2 \<and> (\<forall>x. OpenSection x \<notin> set h2)"
proof (induction h arbitrary: sec' rule: rev_induct)
  case Nil
  then show ?case by simp
next
  case (snoc t h)
  obtain a b where ab: "foldl labels_after (sec, None) h = (a, b)"
    by (cases "foldl labels_after (sec, None) h")
  show ?case
  proof (cases t)
    case (OpenSection x)
    with snoc.prems ab show ?thesis by simp
  next
    case (OpenSubsection x)
    with snoc.prems ab have "x = l" by simp
    with OpenSubsection have "h @ [t] = h @ OpenSubsection l # [] \<and> (\<forall>x. OpenSection x \<notin> set [])"
      by simp
    then show ?thesis by blast
  next
    case EnterReferences
    with snoc.prems ab have "foldl labels_after (sec, None) h = (sec', Some l)" by simp
    from snoc.IH [OF this] obtain h1 h2 where
      "h = h1 @ OpenSubsection l # h2" "\<forall>x. OpenSection x \<notin> set h2" by blast
    with EnterReferences have "h @ [t] = h1 @ OpenSubsection l # (h2 @ [t])
        \<and> (\<forall>x. OpenSection x \<notin> set (h2 @ [t]))"
      by simp
    then show ?thesis by blast
  next
    case NoBoundary
    with snoc.prems ab have "foldl labels_after (sec, None) h = (sec', Some l)" by simp
    from snoc.IH [OF this] obtain h1 h2 where
      "h = h1 @ OpenSubsection l # h2" "\<forall>x. OpenSection x \<notin> set h2" by blast
    with NoBoundary have "h @ [t] = h1 @ OpenSubsection l # (h2 @ [t])
        \<and> (\<forall>x. OpenSection x \<notin> set (h2 @ [t]))"
      by simp
    then show ?thesis by blast
  qed
qed

lemma document_chunks_tracked:
  assumes "document_blocks pages = Inr blocks"
    and "process_document c doc doc_title pages = Inr (d, chunks, reqs)"
    and "ch \<in> set chunks"
  shows "\<exists>k \<le> length (document_lines blocks).
           chunk_labels ch = tracked_labels (take k (observed False (document_lines blocks)))"
proof -
  let ?h = "observed False (document_lines blocks)"
  from assms(1,2) obtain st st' where
    1: "process_blocks c doc initial_state blocks = Inr st" and
    2: "(if \<not> in_references st then flush c doc st else Inr st) = Inr st'" and
    3: "chunks = chunks_out st'"
    by (auto simp: process_document_def split: sum.splits prod.splits)
  have a: "run_inv initial_state st ?h"
    using run_inv_blocks [OF 1] by (simp add: initial_state_def)
  have b: "run_inv st st' []"
    using 2 by (auto simp: run_inv_refl run_inv_flush split: if_splits)
  have "run_inv initial_state st' (?h @ [])"
    using a b by (rule run_inv_trans)
  then have "\<exists>k \<le> length ?h. chunk_labels ch
      = foldl labels_after (labels (initial_state :: 'a seg_state)) (take k ?h)"
    using assms(3) 3 by (auto simp: run_inv_def initial_state_def)
  then show ?thesis
    by (simp add: tracked_labels_def labels_def initial_state_def length_observed)
qed

lemma flush_new_chunks:
  "flush c doc st = Inr st' \<Longrightarrow>
   \<exists>new. chunks_out st' = chunks_out st @ new \<and> (\<forall>ch \<in> set new. chunk_labels ch = labels st)"
  by (auto simp: flush_def Let_def new_chunk_def chunk_labels_def labels_def
      split: if_splits sum.splits prod.splits)

lemma flush_append_part_new_chunks:
  assumes "flush c doc (append_part cp st0) = Inr st1"
  shows "\<exists>new. chunks_out st1 = chunks_out st0 @ new
           \<and> (\<forall>ch \<in> set new. chunk_labels ch = labels st0)"
  using flush_new_chunks [OF assms] by (simp add: append_part_simps)

lemma process_line_new_chunks:
  assumes "process_line c doc (st, cp) line = Inr (st', cp')"
  shows "\<exists>new. chunks_out st' = chunks_out st @ new
           \<and> (\<forall>ch \<in> set new. chunk_labels ch = labels st)"
proof (cases "transition_of (in_references st) line = NoBoundary")
  case True
  then have "chunks_out st' = chunks_out st"
    using assms
    by (auto simp: transition_of_def Let_def split: if_splits option.splits sum.splits)
  then show ?thesis
    by simp
next
  case False
  obtain st1 where f: "flush c doc (append_part cp (st\<lparr>in_references := False\<rparr>)) = Inr st1"
    using False assms process_line_flush_error [OF False, of c doc cp]
    by (cases "flush c doc (append_part cp (st\<lparr>in_references := False\<rparr>))") auto
  have "chunks_out st' = chunks_out st1"
  proof (cases "in_references st")
    case True
    with False assms f show ?thesis
      by (auto simp: transition_of_def Let_def split: if_splits option.splits)
  next
    case nr: False
    then have "st\<lparr>in_references := False\<rparr> = st"
      by simp
    with f have "flush c doc (append_part cp st) = Inr st1"
      by simp
    with nr False assms show ?thesis
      by (auto simp: transition_of_def Let_def split: if_splits option.splits)
  qed
  with flush_append_part_new_chunks [OF f] show ?thesis
    by (simp add: labels_updates)
qed

lemma prefix_labels:
  assumes "process_blocks c doc initial_state bs1 = Inr st1"
    and "process_lines c doc (st1, []) ls1 = Inr (st2, cp)"
  shows "labels st2 = tracked_labels (observed False (document_lines bs1 @ ls1))"
proof -
  have a: "run_inv initial_state st1 (observed False (document_lines bs1))"
    using run_inv_blocks [OF assms(1)] by (simp add: initial_state_def)
  then have r: "in_references st1
      = foldl references_after False (observed False (document_lines bs1))"
    by (simp add: run_inv_def initial_state_def)
  have "run_inv initial_state st2
      (observed False (document_lines bs1) @ observed (in_references st1) ls1)"
    using a run_inv_lines [OF assms(2)] by (rule run_inv_trans)
  then show ?thesis
    by (simp add: run_inv_def observed_append r tracked_labels_def labels_def initial_state_def)
qed

lemma tracked_labelled_by:
  assumes "chunk_labels ch = tracked_labels h"
  shows "labelled_by ch h"
proof -
  have "fst (tracked_labels h) = section_label ch"
    by (simp add: assms [symmetric] chunk_labels_def)
  then have s: "section_label ch \<noteq> None"
    using tracked_section_some [of "''Abstract''" None h]
    by (simp add: tracked_labels_def)
  have u: "\<exists>h1 h2. h = h1 @ OpenSubsection l # h2 \<and> (\<forall>x. OpenSection x \<notin> set h2)"
    if "subsection_label ch = Some l" for l
  proof -
    from that assms
    have "foldl labels_after (Some ''Abstract'', None) h = (section_label ch, Some l)"
      by (simp add: chunk_labels_def tracked_labels_def)
    then show ?thesis
      by (rule tracked_subsection_some)
  qed
  show ?thesis
    unfolding labelled_by_def using s u assms by (simp add: chunk_labels_def)
qed

text \<open>
  C6.  The chunks that a line of a document adds, by the flush at that line, have the
  labels that the headers of the lines before it lead to, starting from the section
  \<open>Abstract\<close> and no subsection; the chunks that the final flush adds have the labels that
  the headers of all lines lead to; the end of a block adds no chunk, and there is none at
  the start.  So the section of a chunk is not null, and its subsection is a label only if
  a subsection header with that label was observed before the flush of the chunk, with no
  section opened between the two.  A line that opens a section leaves no current
  subsection.
\<close>

theorem chunk_labels_follow_headers:
  "(\<forall>bs1 b bs2 st1 ls1 l ls2 st2 cp st3 cp'.
       document_blocks pages = Inr (bs1 @ b # bs2)
       \<and> process_blocks c doc initial_state bs1 = Inr st1
       \<and> split_nl b = ls1 @ l # ls2
       \<and> process_lines c doc (st1, []) ls1 = Inr (st2, cp)
       \<and> process_line c doc (st2, cp) l = Inr (st3, cp')
       \<longrightarrow> (\<exists>new. chunks_out st3 = chunks_out st2 @ new
              \<and> (\<forall>ch \<in> set new.
                    labelled_by ch (observed False (document_lines bs1 @ ls1)))))
   \<and> (\<forall>blocks st d chunks reqs.
         document_blocks pages = Inr blocks
         \<and> process_blocks c doc initial_state blocks = Inr st
         \<and> process_document c doc doc_title pages = Inr (d, chunks, reqs)
         \<longrightarrow> (\<exists>new. chunks = chunks_out st @ new
                \<and> (\<forall>ch \<in> set new. labelled_by ch (observed False (document_lines blocks)))))
   \<and> (\<forall>b st1 st2 cp st3.
         process_lines c doc (st1, []) (split_nl b) = Inr (st2, cp)
         \<and> process_block c doc st1 b = Inr st3
         \<longrightarrow> chunks_out st3 = chunks_out st2)
   \<and> chunks_out (initial_state :: 'f seg_state) = []
   \<and> (\<forall>blocks d chunks reqs ch.
         document_blocks pages = Inr blocks
         \<and> process_document c doc doc_title pages = Inr (d, chunks, reqs)
         \<and> ch \<in> set chunks
         \<longrightarrow> (\<exists>k \<le> length (document_lines blocks).
                labelled_by ch (take k (observed False (document_lines blocks)))))
   \<and> (\<forall>st cp line st' cp' x.
         process_line c doc (st, cp) line = Inr (st', cp')
         \<and> transition_of (in_references st) line = OpenSection x
         \<longrightarrow> current_section st' = Some x \<and> current_subsection st' = None)"
proof (intro conjI allI impI)
  fix bs1 b bs2 st1 ls1 l ls2 st2 cp st3 cp'
  assume h: "document_blocks pages = Inr (bs1 @ b # bs2)
       \<and> process_blocks c doc initial_state bs1 = Inr st1
       \<and> split_nl b = ls1 @ l # ls2
       \<and> process_lines c doc (st1, []) ls1 = Inr (st2, cp)
       \<and> process_line c doc (st2, cp) l = Inr (st3, cp')"
  then have l: "labels st2 = tracked_labels (observed False (document_lines bs1 @ ls1))"
    using prefix_labels by blast
  from h obtain new where "chunks_out st3 = chunks_out st2 @ new"
    and "\<forall>ch \<in> set new. chunk_labels ch = labels st2"
    using process_line_new_chunks by blast
  then have "chunks_out st3 = chunks_out st2 @ new
      \<and> (\<forall>ch \<in> set new. labelled_by ch (observed False (document_lines bs1 @ ls1)))"
    using l by (simp add: tracked_labelled_by)
  then show "\<exists>new. chunks_out st3 = chunks_out st2 @ new
      \<and> (\<forall>ch \<in> set new. labelled_by ch (observed False (document_lines bs1 @ ls1)))"
    by blast
next
  fix blocks st d chunks reqs
  assume h: "document_blocks pages = Inr blocks
         \<and> process_blocks c doc initial_state blocks = Inr st
         \<and> process_document c doc doc_title pages = Inr (d, chunks, reqs)"
  then obtain st' where f: "(if \<not> in_references st then flush c doc st else Inr st) = Inr st'"
    and ch: "chunks = chunks_out st'"
    by (auto simp: process_document_def split: sum.splits prod.splits)
  have "process_lines c doc (st, []) [] = Inr (st, [])"
    by simp
  with h have l: "labels st = tracked_labels (observed False (document_lines blocks @ []))"
    using prefix_labels by blast
  have "\<exists>new. chunks_out st' = chunks_out st @ new
      \<and> (\<forall>ch \<in> set new. chunk_labels ch = labels st)"
    using f flush_new_chunks [of c doc st st'] by (auto split: if_splits)
  then obtain new where "chunks_out st' = chunks_out st @ new"
    and "\<forall>ch \<in> set new. chunk_labels ch = labels st"
    by blast
  then have "chunks = chunks_out st @ new
      \<and> (\<forall>ch \<in> set new. labelled_by ch (observed False (document_lines blocks)))"
    using l ch by (simp add: tracked_labelled_by)
  then show "\<exists>new. chunks = chunks_out st @ new
      \<and> (\<forall>ch \<in> set new. labelled_by ch (observed False (document_lines blocks)))"
    by blast
next
  fix b and st1 :: "'a seg_state" and st2 cp st3
  assume "process_lines c doc (st1, []) (split_nl b) = Inr (st2, cp)
         \<and> process_block c doc st1 b = Inr st3"
  then show "chunks_out st3 = chunks_out st2"
    by (auto simp: process_block_def)
next
  show "chunks_out (initial_state :: 'f seg_state) = []"
    by (simp add: initial_state_def)
next
  fix blocks d chunks reqs ch
  assume "document_blocks pages = Inr blocks
         \<and> process_document c doc doc_title pages = Inr (d, chunks, reqs)
         \<and> ch \<in> set chunks"
  then obtain k where "k \<le> length (document_lines blocks)"
    and "chunk_labels ch = tracked_labels (take k (observed False (document_lines blocks)))"
    using document_chunks_tracked by blast
  then have "k \<le> length (document_lines blocks)
      \<and> labelled_by ch (take k (observed False (document_lines blocks)))"
    by (simp add: tracked_labelled_by)
  then show "\<exists>k \<le> length (document_lines blocks).
      labelled_by ch (take k (observed False (document_lines blocks)))"
    by blast
next
  fix st :: "'a seg_state" and cp line st' cp' x
  assume "process_line c doc (st, cp) line = Inr (st', cp')
         \<and> transition_of (in_references st) line = OpenSection x"
  then have "labels st' = labels_after (labels st) (OpenSection x)"
    using process_line_step [of c doc st cp line st' cp'] by simp
  then show "current_section st' = Some x" and "current_subsection st' = None"
    by (cases "labels st"; simp add: labels_def)+
qed

theorem chunk_labels_follow_headers_witness:
  "labelled_by
     \<lparr>doc_id = ''p'', content = ''We train a model on the big corpus.'',
      embedding = None :: nat list option, section_label = Some ''1 Intro'',
      subsection_label = Some ''1.1 Setup''\<rparr>
     (observed False [''1 Intro'', ''1.1 Setup'', ''We train a model on the big corpus.''])"
proof -
  let ?page = "''1 Intro\<newline>1.1 Setup\<newline>We train a model on the big corpus.\<newline>2 Method\<newline>More.''"
  let ?ls = "[''1 Intro'', ''1.1 Setup'', ''We train a model on the big corpus.'']"
  let ?ch = "\<lparr>doc_id = ''p'', content = ''We train a model on the big corpus.'',
              embedding = None :: nat list option, section_label = Some ''1 Intro'',
              subsection_label = Some ''1.1 Setup''\<rparr>"
  let ?st2 = "\<lparr>chunks_out = [] :: nat RAGChunk list, current_section = Some ''1 Intro'',
               current_subsection = Some ''1.1 Setup'', section_content = [],
               section_sentences = [], in_references = False, requests = []\<rparr>"
  let ?st3 = "\<lparr>chunks_out = [?ch], current_section = Some ''2 Method'',
               current_subsection = None, section_content = [],
               section_sentences = [], in_references = False,
               requests = [FactRequest ''Section text:\<newline>We train a model on the big corpus.'']\<rparr>"
  have b: "document_blocks [Some ?page] = Inr ([] @ ?page # [])"
    by (simp add: str_eval detect_eval seg_eval)
  have s: "split_nl ?page = ?ls @ ''2 Method'' # [''More.'']"
    by (simp add: str_eval)
  have p: "process_lines quiet_collaborators ''p'' (initial_state, []) ?ls
           = Inr (?st2, [''We train a model on the big corpus.''])"
    by (simp add: str_eval detect_eval seg_eval)
  have q: "process_line quiet_collaborators ''p''
             (?st2, [''We train a model on the big corpus.'']) ''2 Method''
           = Inr (?st3, [])"
    by (simp add: str_eval detect_eval seg_eval classifier_eval)
  have "document_blocks [Some ?page] = Inr ([] @ ?page # [])
       \<and> process_blocks quiet_collaborators ''p'' initial_state [] = Inr initial_state
       \<and> split_nl ?page = ?ls @ ''2 Method'' # [''More.'']
       \<and> process_lines quiet_collaborators ''p'' (initial_state, []) ?ls
           = Inr (?st2, [''We train a model on the big corpus.''])
       \<and> process_line quiet_collaborators ''p''
             (?st2, [''We train a model on the big corpus.'']) ''2 Method''
           = Inr (?st3, [])"
    using b s p q by simp
  from chunk_labels_follow_headers
         [of "[Some ?page]" quiet_collaborators "''p''",
          THEN conjunct1, rule_format, OF this]
  show ?thesis
    by (simp add: document_lines_def)
qed

section \<open>Appending to a window and truncating it\<close>

lemma frac_le_iff:
  assumes "0 < n" and "0 < q"
  shows "(rat_of_nat k / rat_of_nat n \<le> rat_of_nat p / rat_of_nat q) = (q * k \<le> p * n)"
proof -
  have "(rat_of_nat k / rat_of_nat n \<le> rat_of_nat p / rat_of_nat q)
        = (rat_of_nat (q * k) \<le> rat_of_nat (p * n))"
    using assms by (simp add: field_simps)
  then show ?thesis
    by (simp only: of_nat_le_iff)
qed

lemma frac_ge_iff:
  assumes "0 < n" and "0 < q"
  shows "(rat_of_nat p / rat_of_nat q \<le> rat_of_nat k / rat_of_nat n) = (p * n \<le> q * k)"
proof -
  have "(rat_of_nat p / rat_of_nat q \<le> rat_of_nat k / rat_of_nat n)
        = (rat_of_nat (p * n) \<le> rat_of_nat (q * k))"
    using assms by (simp add: field_simps)
  then show ?thesis
    by (simp only: of_nat_le_iff)
qed

lemmas frac_numerals =
  frac_le_iff [of _ 10 _ 4, simplified] frac_le_iff [of _ 100 _ 28, simplified]
  frac_ge_iff [of _ 10 5, simplified] frac_ge_iff [of _ 10 3, simplified]
  frac_ge_iff [of _ 10 32, simplified]

text \<open>The classifier as inequalities between natural numbers.\<close>

lemma classifier_conditions:
  "is_proper_chunk_text w \<longleftrightarrow>
     35 \<le> length (str_strip w) \<and> 5 \<le> length (str_split (str_strip w))
     \<and> 10 * length (filter chr_isdigit (str_strip w)) \<le> 4 * length (str_strip w)
     \<and> 100 * length (filter (\<lambda>x. length x = 1) (str_split (str_strip w)))
         \<le> 28 * length (str_split (str_strip w))
     \<and> 5 * length (str_split (str_strip w))
         \<le> 10 * length (filter (list_ex chr_isalpha) (str_split (str_strip w)))
     \<and> 3 * length (str_split (str_strip w))
         \<le> 10 * length (remdups (map str_lower (str_split (str_strip w))))
     \<and> (has_terminal_punctuation (str_strip w)
          \<or> 32 * length (str_split (str_strip w))
              \<le> 10 * sum_list (map length (str_split (str_strip w))))
     \<and> \<not> (str_isupper (str_strip w) \<and> length (str_strip w) < 80)"
proof (cases "35 \<le> length (str_strip w) \<and> 5 \<le> length (str_split (str_strip w))")
  case False
  then show ?thesis
    by (auto simp: is_proper_chunk_text_def Let_def str_split_nonempty_words)
next
  case True
  then have n: "max (length (str_strip w)) 1 = length (str_strip w)"
    and nw: "max (length (str_split (str_strip w))) 1 = length (str_split (str_strip w))"
    and ne: "str_strip w \<noteq> []"
    and p: "0 < length (str_strip w)" "0 < length (str_split (str_strip w))"
    by auto
  have pe: "list_ex (\<lambda>c. c \<in> set t) ''.!?'' = has_terminal_punctuation t" for t
    by (auto simp: has_terminal_punctuation_def list_ex_iff)
  have u: "card (set (map str_lower ws)) = length (remdups (map str_lower ws))" for ws
    by (rule List.card_set)
  show ?thesis
    unfolding is_proper_chunk_text_def Let_def str_split_nonempty_words n nw pe u
    using True ne by (simp add: frac_numerals [OF p(1)] frac_numerals [OF p(2)])
qed

text \<open>A string is its trimmed form between two runs of whitespace.\<close>

lemma str_strip_decomp:
  "\<exists>pre post. x = pre @ str_strip x @ post \<and> list_all chr_isspace pre \<and> list_all chr_isspace post"
proof -
  have 1: "x = takeWhile chr_isspace x @ str_lstrip x"
    by (simp add: str_lstrip_def)
  have 2: "str_lstrip x = str_strip x @ rev (takeWhile chr_isspace (rev (str_lstrip x)))"
    unfolding str_strip_def by (rule str_rstrip_decomp)
  have "x = takeWhile chr_isspace x @ str_strip x @ rev (takeWhile chr_isspace (rev (str_lstrip x)))"
    using 1 2 by simp
  moreover have "list_all chr_isspace (takeWhile chr_isspace x)"
    and "list_all chr_isspace (rev (takeWhile chr_isspace (rev (str_lstrip x))))"
    by (auto simp: list_all_iff dest: set_takeWhileD)
  ultimately show ?thesis by blast
qed

lemma str_strip_ends:
  assumes "str_strip x \<noteq> []"
  shows "\<not> chr_isspace (hd (str_strip x))" and "\<not> chr_isspace (last (str_strip x))"
proof -
  have "str_lstrip (str_strip x) = str_strip x"
    by (rule str_lstrip_strip)
  then show "\<not> chr_isspace (hd (str_strip x))"
    using assms str_lstrip_hd [of "str_strip x"] by simp
  let ?z = "dropWhile chr_isspace (rev (str_lstrip x))"
  have z: "str_strip x = rev ?z"
    by (simp add: str_strip_def str_rstrip_def)
  with assms have "?z \<noteq> []" by simp
  then have "\<not> chr_isspace (hd ?z)"
    by (rule hd_dropWhile)
  moreover have "last (rev ?z) = hd ?z"
    using \<open>?z \<noteq> []\<close> by (simp add: last_rev)
  ultimately show "\<not> chr_isspace (last (str_strip x))"
    by (simp add: z)
qed

lemma str_strip_sandwich:
  assumes "list_all chr_isspace pre" and "list_all chr_isspace post"
    and "m \<noteq> []" and "\<not> chr_isspace (hd m)" and "\<not> chr_isspace (last m)"
  shows "str_strip (pre @ m @ post) = m"
proof -
  have "dropWhile chr_isspace (pre @ (m @ post)) = m @ post"
    using assms(1,3,4) takeWhile_stop [of pre chr_isspace "m @ post"]
    by (simp add: list_all_iff)
  then have 1: "str_lstrip (pre @ m @ post) = m @ post"
    by (simp add: str_lstrip_def)
  have "dropWhile chr_isspace (rev post @ rev m) = rev m"
    using assms(2,3,5) takeWhile_stop [of "rev post" chr_isspace "rev m"]
    by (simp add: list_all_iff hd_rev)
  then have 2: "str_rstrip (m @ post) = m"
    by (simp add: str_rstrip_def)
  show ?thesis
    by (simp add: str_strip_def 1 2)
qed

lemma filter_str_strip:
  assumes "\<And>c. P c \<Longrightarrow> \<not> chr_isspace c"
  shows "filter P (str_strip x) = filter P x"
proof -
  obtain pre post where x: "x = pre @ str_strip x @ post"
    and pre: "list_all chr_isspace pre" and post: "list_all chr_isspace post"
    using str_strip_decomp by blast
  have "filter P pre = []" and "filter P post = []"
    using pre post assms by (auto simp: list_all_iff filter_empty_conv)
  then have "filter P (pre @ str_strip x @ post) = filter P (str_strip x)"
    by simp
  with x show ?thesis by simp
qed

lemma list_ex_str_strip:
  assumes "\<And>c. P c \<Longrightarrow> \<not> chr_isspace c"
  shows "list_ex P (str_strip x) = list_ex P x"
proof -
  have "(filter P (str_strip x) \<noteq> []) = (filter P x \<noteq> [])"
    using filter_str_strip [of P x] assms by simp
  then show ?thesis
    by (simp add: list_ex_iff filter_empty_conv)
qed

text \<open>Splitting into words.\<close>

lemma split_from_spaces:
  "list_all chr_isspace t \<Longrightarrow> split_from w t = (if w = [] then [] else [w])"
  by (induction t arbitrary: w) auto

lemma split_from_space_suffix:
  "list_all chr_isspace t \<Longrightarrow> split_from w (u @ t) = split_from w u"
proof (induction u arbitrary: w)
  case Nil
  then show ?case by (simp add: split_from_spaces)
next
  case (Cons c u)
  then show ?case by simp
qed

lemma split_from_space_prefix:
  "list_all chr_isspace pre \<Longrightarrow> split_from [] (pre @ u) = split_from [] u"
  by (induction pre) auto

lemma str_split_strip: "str_split (str_strip x) = str_split x"
proof -
  obtain pre post where x: "x = pre @ str_strip x @ post"
    and pre: "list_all chr_isspace pre" and post: "list_all chr_isspace post"
    using str_strip_decomp by blast
  have "split_from [] (pre @ str_strip x @ post) = split_from [] (str_strip x)"
    using pre post by (simp add: split_from_space_prefix split_from_space_suffix)
  with x show ?thesis
    by (simp add: str_split_def)
qed

lemma split_from_space_between:
  "chr_isspace sp \<Longrightarrow> split_from w (a @ sp # b) = split_from w a @ split_from [] b"
  by (induction a arbitrary: w) auto

lemma str_split_append:
  "str_split (a @ CHR '' '' # b) = str_split a @ str_split b"
proof -
  have "chr_isspace CHR '' ''"
    by (simp add: chr_isspace_def py_ord_def)
  then show ?thesis
    by (simp add: str_split_def split_from_space_between)
qed

lemma split_from_chars:
  "x \<in> set (split_from w cs) \<Longrightarrow> set x \<subseteq> set w \<union> set cs"
proof (induction cs arbitrary: w)
  case Nil
  then show ?case by (auto split: if_splits)
next
  case (Cons c cs)
  show ?case
  proof (cases "chr_isspace c")
    case True
    with Cons.prems have "x = w \<or> x \<in> set (split_from [] cs)"
      by (auto split: if_splits)
    then show ?thesis
      using Cons.IH [of "[]"] by auto
  next
    case False
    with Cons.prems have "x \<in> set (split_from (w @ [c]) cs)" by simp
    from Cons.IH [OF this] show ?thesis by auto
  qed
qed

lemma str_split_chars: "x \<in> set (str_split s) \<Longrightarrow> set x \<subseteq> set s"
  using split_from_chars [of x "[]" s] by (simp add: str_split_def)

text \<open>Character classes.\<close>

lemma alpha_is_cased: "chr_isalpha c \<Longrightarrow> chr_isupper c \<or> chr_islower c"
  by (auto simp: chr_isalpha_def chr_isupper_def chr_islower_def Let_def)

lemma cased_not_space:
  "chr_isupper c \<Longrightarrow> \<not> chr_isspace c" "chr_islower c \<Longrightarrow> \<not> chr_isspace c"
  by (auto simp: chr_isupper_def chr_islower_def chr_isspace_def Let_def)

lemma isdigit_not_space: "chr_isdigit c \<Longrightarrow> \<not> chr_isspace c"
  by (auto simp: chr_isdigit_def chr_isspace_def Let_def)

lemma punctuation_not_space:
  "c = CHR ''.'' \<or> c = CHR ''!'' \<or> c = CHR ''?'' \<Longrightarrow> \<not> chr_isspace c"
  by (auto simp: chr_isspace_def py_ord_def)

lemma space_classes:
  "\<not> chr_isdigit CHR '' ''" "\<not> chr_isupper CHR '' ''" "\<not> chr_islower CHR '' ''"
  by (simp_all add: chr_isdigit_def chr_isupper_def chr_islower_def py_ord_def)

lemma has_terminal_punctuation_strip:
  "has_terminal_punctuation (str_strip x) = has_terminal_punctuation x"
  unfolding has_terminal_punctuation_def
  by (rule list_ex_str_strip) (rule punctuation_not_space)

lemma accepted_has_upper_or_lower:
  assumes "is_proper_chunk_text a"
  shows "list_ex chr_isupper (str_strip a) \<or> list_ex chr_islower (str_strip a)"
proof -
  from assms have "5 \<le> length (str_split (str_strip a))"
    and "5 * length (str_split (str_strip a))
         \<le> 10 * length (filter (list_ex chr_isalpha) (str_split (str_strip a)))"
    by (simp_all add: classifier_conditions)
  then have "filter (list_ex chr_isalpha) (str_split (str_strip a)) \<noteq> []"
    by auto
  then obtain x ch where "x \<in> set (str_split (str_strip a))" and "ch \<in> set x"
    and "chr_isalpha ch"
    by (auto simp: filter_empty_conv list_ex_iff)
  then have "ch \<in> set (str_strip a)" and "chr_isupper ch \<or> chr_islower ch"
    using str_split_chars alpha_is_cased by blast+
  then show ?thesis
    by (auto simp: list_ex_iff)
qed

lemma append_keeps_acceptance:
  assumes a: "is_proper_chunk_text a" and b: "is_proper_chunk_text b"
    and u: "3 * length (str_split (a @ CHR '' '' # b))
            \<le> 10 * length (remdups (map str_lower (str_split (a @ CHR '' '' # b))))"
  shows "is_proper_chunk_text (a @ CHR '' '' # b)"
proof -
  let ?c = "a @ CHR '' '' # b"
  note ca = a [unfolded classifier_conditions str_split_strip]
  note cb = b [unfolded classifier_conditions str_split_strip]
  have na: "str_strip a \<noteq> []" and nb: "str_strip b \<noteq> []"
    using ca cb by auto
  obtain pa qa where da: "a = pa @ str_strip a @ qa"
    and pa: "list_all chr_isspace pa" and qa: "list_all chr_isspace qa"
    using str_strip_decomp by blast
  obtain pb qb where db: "b = pb @ str_strip b @ qb"
    and pb: "list_all chr_isspace pb" and qb: "list_all chr_isspace qb"
    using str_strip_decomp by blast
  let ?m = "str_strip a @ (qa @ CHR '' '' # pb) @ str_strip b"
  have c: "?c = pa @ ?m @ qb"
  proof -
    have "a @ CHR '' '' # b = (pa @ str_strip a @ qa) @ CHR '' '' # (pb @ str_strip b @ qb)"
      using da db by simp
    then show ?thesis by simp
  qed
  have "str_strip (pa @ ?m @ qb) = ?m"
    using pa qb na nb str_strip_ends [OF na] str_strip_ends [OF nb]
    by (intro str_strip_sandwich) simp_all
  with c have sc: "str_strip ?c = ?m"
    by simp
  have len: "length (str_strip a) + length (str_strip b) + 1 \<le> length (str_strip ?c)"
    by (simp add: sc)
  have words: "str_split ?c = str_split a @ str_split b"
    by (rule str_split_append)
  have digits: "filter chr_isdigit (str_strip ?c)
                = filter chr_isdigit (str_strip a) @ filter chr_isdigit (str_strip b)"
  proof -
    have "filter chr_isdigit (str_strip x) = filter chr_isdigit x" for x
      by (rule filter_str_strip) (rule isdigit_not_space)
    then show ?thesis
      by (simp add: space_classes)
  qed
  have punct: "has_terminal_punctuation (str_strip ?c)
               = (has_terminal_punctuation (str_strip a) \<or> has_terminal_punctuation (str_strip b))"
    by (auto simp: has_terminal_punctuation_strip)
      (auto simp: has_terminal_punctuation_def)
  have upper: "\<not> (str_isupper (str_strip ?c) \<and> length (str_strip ?c) < 80)"
  proof
    assume h: "str_isupper (str_strip ?c) \<and> length (str_strip ?c) < 80"
    then have "\<not> list_ex chr_islower (str_strip ?c)"
      by (simp add: str_isupper_def)
    then have "\<not> list_ex chr_islower (str_strip a)"
      by (simp add: sc)
    with accepted_has_upper_or_lower [OF a] have "str_isupper (str_strip a)"
      by (simp add: str_isupper_def)
    with ca have "80 \<le> length (str_strip a)"
      by auto
    with len h show False
      by simp
  qed
  have 1: "35 \<le> length (str_strip ?c)"
    using ca len by simp
  have 2: "5 \<le> length (str_split ?c)"
    using ca by (simp add: words)
  have 3: "10 * length (filter chr_isdigit (str_strip ?c)) \<le> 4 * length (str_strip ?c)"
    using ca cb len by (simp add: digits)
  have 4: "100 * length (filter (\<lambda>x. length x = 1) (str_split ?c)) \<le> 28 * length (str_split ?c)"
    using ca cb by (simp add: words)
  have 5: "5 * length (str_split ?c) \<le> 10 * length (filter (list_ex chr_isalpha) (str_split ?c))"
    using ca cb by (simp add: words)
  have 6: "has_terminal_punctuation (str_strip ?c)
           \<or> 32 * length (str_split ?c) \<le> 10 * sum_list (map length (str_split ?c))"
    using ca cb by (auto simp: words punct)
  show ?thesis
    unfolding classifier_conditions str_split_strip
    using 1 2 3 4 5 6 u upper by blast
qed

lemma few_words_rejected: "length (str_split t) < 5 \<Longrightarrow> \<not> is_proper_chunk_text t"
  by (simp add: classifier_conditions str_split_strip)

lemma distinct_fraction_iff:
  assumes "str_split t \<noteq> []"
  shows "(3 / 10 \<le> distinct_fraction t)
         = (3 * length (str_split t) \<le> 10 * length (remdups (map str_lower (str_split t))))"
proof -
  have "0 < length (str_split t)"
    using assms by simp
  then show ?thesis
    unfolding distinct_fraction_def fraction_def by (simp add: frac_numerals)
qed

text \<open>
  C7, as the code has it.  A text made of an accepted window, a space and a text that the
  classifier accepts is accepted if its fraction of distinct lowercase word forms is still
  at least 0.30; and a truncation of a window to fewer than 5 words is rejected.
\<close>

theorem classifier_append_truncate:
  "(is_proper_chunk_text w \<and> is_proper_chunk_text e
      \<and> 3 / 10 \<le> distinct_fraction (str_strip (w @ '' '' @ e))
      \<longrightarrow> is_proper_chunk_text (w @ '' '' @ e))
   \<and> (is_proper_chunk_text w \<and> length (str_split (take k w)) < 5
      \<longrightarrow> \<not> is_proper_chunk_text (take k w))"
proof (intro conjI impI)
  assume h: "is_proper_chunk_text w \<and> is_proper_chunk_text e
      \<and> 3 / 10 \<le> distinct_fraction (str_strip (w @ '' '' @ e))"
  then have "5 \<le> length (str_split w)"
    by (simp add: classifier_conditions str_split_strip)
  then have ne: "str_split (str_strip (w @ '' '' @ e)) \<noteq> []"
    by (auto simp: str_split_strip str_split_append)
  from h have "3 / 10 \<le> distinct_fraction (str_strip (w @ '' '' @ e))"
    by blast
  then have "3 * length (str_split (str_strip (w @ '' '' @ e)))
      \<le> 10 * length (remdups (map str_lower (str_split (str_strip (w @ '' '' @ e)))))"
    by (simp only: distinct_fraction_iff [OF ne])
  then have "3 * length (str_split (w @ CHR '' '' # e))
      \<le> 10 * length (remdups (map str_lower (str_split (w @ CHR '' '' # e))))"
    by (simp add: str_split_strip)
  with h have "is_proper_chunk_text (w @ CHR '' '' # e)"
    by (intro append_keeps_acceptance) simp_all
  then show "is_proper_chunk_text (w @ '' '' @ e)"
    by simp
next
  assume "is_proper_chunk_text w \<and> length (str_split (take k w)) < 5"
  then show "\<not> is_proper_chunk_text (take k w)"
    by (simp add: few_words_rejected)
qed

theorem classifier_append_truncate_witness:
  "is_proper_chunk_text
     (''We train a model on the big corpus.'' @ '' '' @ ''We train a model on the big corpus.'')
   \<and> \<not> is_proper_chunk_text (take 10 ''We train a model on the big corpus.'')"
proof -
  have d: "3 / 10 \<le> distinct_fraction
      (str_strip (''We train a model on the big corpus.'' @ '' ''
                  @ ''We train a model on the big corpus.''))"
    by (simp add: distinct_fraction_def fraction_def str_eval)
  have t: "length (str_split (take 10 ''We train a model on the big corpus.'')) < 5"
    by (simp add: str_eval)
  show ?thesis
    using classifier_append_truncate
      [of "''We train a model on the big corpus.''" "''We train a model on the big corpus.''" 10]
      d t prose_line_accepted
    by blast
qed

text \<open>
  The claim C7 fails as stated: the window of three accepted sentences is accepted, the
  sentence appended to it is accepted on its own, and the result is rejected, its 8
  distinct word forms being less than 0.30 of its 32 words.
\<close>

theorem appending_can_reject:
  "is_proper_chunk_text
     ''We train a model on the big corpus. We train a model on the big corpus. We train a model on the big corpus.''
   \<and> is_proper_chunk_text ''We train a model on the big corpus.''
   \<and> \<not> is_proper_chunk_text
       (''We train a model on the big corpus. We train a model on the big corpus. We train a model on the big corpus.''
        @ '' '' @ ''We train a model on the big corpus.'')"
  by (simp add: str_eval classifier_eval)

end
